theory Spec2Isabelle
  imports Complex_Main "HOL-Library.Sublist"
begin

section \<open>JavaScript values, numbers and JSON.stringify\<close>

text \<open>
  The route handler \<^verbatim>\<open>src/app/api/search/route.ts\<close> serialises every outcome with
  \<^verbatim>\<open>JSON.stringify\<close>. Strings are modelled as byte strings (\<^typ>\<open>string\<close>); the
  values that reach the serialiser are null, integral numbers, strings, arrays and objects
  (an object is the list of its properties in insertion order).
\<close>

datatype json =
    JNull
  | JNum int
  | JStr string
  | JArr "json list"
  | JObj "(string \<times> json) list"

definition digit_char :: "nat \<Rightarrow> char" where
  "digit_char d = char_of (48 + d)"

fun show_nat :: "nat \<Rightarrow> string" where
  "show_nat n = (if n < 10 then [digit_char n] else show_nat (n div 10) @ [digit_char (n mod 10)])"

declare show_nat.simps [simp del]

definition show_int :: "int \<Rightarrow> string" where
  "show_int i = (if i < 0 then CHR ''-'' # show_nat (nat (- i)) else show_nat (nat i))"

definition hex_char :: "nat \<Rightarrow> char" where
  "hex_char d = (if d < 10 then char_of (48 + d) else char_of (87 + d))"

text \<open>
  QuoteJSONString of ECMA-262: the double quote and the backslash are escaped, the control
  characters below 0x20 become a short escape or a \<^verbatim>\<open>\u00XX\<close> escape, every other
  character stands for itself.
\<close>

definition escape_char :: "char \<Rightarrow> string" where
  "escape_char c =
     (let n = (of_char c :: nat) in
      if n = 34 then [CHR 0x5C, CHR 0x22]
      else if n = 92 then [CHR 0x5C, CHR 0x5C]
      else if n = 8 then [CHR 0x5C, CHR ''b'']
      else if n = 12 then [CHR 0x5C, CHR ''f'']
      else if n = 10 then [CHR 0x5C, CHR ''n'']
      else if n = 13 then [CHR 0x5C, CHR ''r'']
      else if n = 9 then [CHR 0x5C, CHR ''t'']
      else if n < 32 then [CHR 0x5C, CHR ''u'', CHR ''0'', CHR ''0'', hex_char (n div 16), hex_char (n mod 16)]
      else [c])"

definition QuoteJSONString :: "string \<Rightarrow> string" where
  "QuoteJSONString s = CHR 0x22 # concat (map escape_char s) @ [CHR 0x22]"

fun join :: "string \<Rightarrow> string list \<Rightarrow> string" where
  "join sep [] = []"
| "join sep [x] = x"
| "join sep (x # y # ys) = x @ sep @ join sep (y # ys)"

definition member_text :: "string \<times> string \<Rightarrow> string" where
  "member_text kv = QuoteJSONString (fst kv) @ '':'' @ snd kv"

primrec stringify :: "json \<Rightarrow> string" where
  "stringify JNull = ''null''"
| "stringify (JNum n) = show_int n"
| "stringify (JStr s) = QuoteJSONString s"
| "stringify (JArr xs) = ''['' @ join '','' (map stringify xs) @ '']''"
| "stringify (JObj kvs) = ''{'' @ join '','' (map member_text (map (map_prod id stringify) kvs)) @ ''}''"

text \<open>
  A JavaScript number that may be NaN: \<^verbatim>\<open>parseInt\<close> yields NaN (\<^term>\<open>None\<close>) when
  no digit can be read, and \<^verbatim>\<open>JSON.stringify\<close> writes NaN as \<^verbatim>\<open>null\<close>.
\<close>

definition number_json :: "int option \<Rightarrow> json" where
  "number_json n = (case n of None \<Rightarrow> JNull | Some i \<Rightarrow> JNum i)"

definition is_digit :: "char \<Rightarrow> bool" where
  "is_digit c = (let n = (of_char c :: nat) in 48 \<le> n \<and> n \<le> 57)"

definition is_hex_digit :: "char \<Rightarrow> bool" where
  "is_hex_digit c =
     (let n = (of_char c :: nat) in (48 \<le> n \<and> n \<le> 57) \<or> (65 \<le> n \<and> n \<le> 70) \<or> (97 \<le> n \<and> n \<le> 102))"

definition digit_val :: "char \<Rightarrow> nat" where
  "digit_val c =
     (let n = (of_char c :: nat) in
      if n \<le> 57 then n - 48 else if n \<le> 70 then n - 55 else n - 87)"

definition is_js_space :: "char \<Rightarrow> bool" where
  "is_js_space c = (c \<in> set [CHR 0x09, CHR 0x0A, CHR 0x0B, CHR 0x0C, CHR 0x0D, CHR 0x20])"

definition digits_value :: "nat \<Rightarrow> string \<Rightarrow> nat" where
  "digits_value radix ds = foldl (\<lambda>a d. radix * a + digit_val d) 0 ds"

text \<open>
  \<^verbatim>\<open>parseInt(s)\<close> with no radix argument: leading white space is skipped, a sign is
  read, a \<^verbatim>\<open>0x\<close> prefix selects radix 16, and the longest prefix of digits is the value.
\<close>

definition parseInt :: "string \<Rightarrow> int option" where
  "parseInt s =
     (let t = dropWhile is_js_space s;
          neg = (case t of [] \<Rightarrow> False | c # _ \<Rightarrow> c = CHR ''-'');
          u = (case t of [] \<Rightarrow> [] | c # r \<Rightarrow> if c = CHR ''-'' \<or> c = CHR ''+'' then r else t);
          hex = (take 2 u = ''0x'' \<or> take 2 u = ''0X'');
          ds = (if hex then takeWhile is_hex_digit (drop 2 u) else takeWhile is_digit u);
          m = int (digits_value (if hex then 16 else 10) ds)
      in if ds = [] then None else Some (if neg then - m else m))"

section \<open>The relational store and the statements sent to it\<close>

text \<open>
  The table \<^verbatim>\<open>reviews\<close> is created by \<^verbatim>\<open>scripts/seed-pg.mjs\<close>:
  \<^verbatim>\<open>id SERIAL PRIMARY KEY, external_id INTEGER UNIQUE, review TEXT NOT NULL,
  sentiment INTEGER NOT NULL\<close>. The store is the list of its rows in physical order,
  the sequence behind \<^verbatim>\<open>id\<close>, and the function \<^verbatim>\<open>lower\<close> of the database,
  which follows the collation the database was created with and is not fixed by this
  repository. Text is UTF-8, a string is the list of its bytes; the texts the route and
  the seeding script bind are encodings of JavaScript strings.
\<close>

record review_row =
  col_id :: int
  col_external_id :: "int option"
  col_review :: string
  col_sentiment :: int

record pg_store =
  reviews :: "review_row list"
  reviews_id_seq :: int
  pg_lower :: "string \<Rightarrow> string"

text \<open>
  What the driver hands to JavaScript for one cell: \<^verbatim>\<open>null\<close>, a number (an
  \<^verbatim>\<open>INTEGER\<close> column) or a string (a \<^verbatim>\<open>TEXT\<close> column, and a
  \<^verbatim>\<open>bigint\<close> such as \<^verbatim>\<open>count(*)\<close>, which node-postgres returns as its decimal
  text). A result row is an object: the list of its columns in select-list order.
\<close>

datatype pg_value = Pg_null | Pg_int int | Pg_text string

type_synonym pg_row = "(string \<times> pg_value) list"

definition value_json :: "pg_value \<Rightarrow> json" where
  "value_json v = (case v of Pg_null \<Rightarrow> JNull | Pg_int n \<Rightarrow> JNum n | Pg_text s \<Rightarrow> JStr s)"

definition row_json :: "pg_row \<Rightarrow> json" where
  "row_json r = JObj (map (map_prod id value_json) r)"

text \<open>
  \<^verbatim>\<open>String.prototype.toLowerCase\<close> on a string of ASCII characters maps the letters A
  to Z and keeps every other character. On a string with a character outside ASCII the
  result follows the Unicode case tables of the runtime, which are not part of this
  repository: the model takes them as the parameter \<open>unicode_lower\<close>, the function
  that lower-cases such a string. \<open>ascii_lower\<close> alone is also the \<^verbatim>\<open>lower\<close> of a
  database whose character classification is that of the C locale.
\<close>

definition is_ascii :: "char \<Rightarrow> bool" where
  "is_ascii c = ((of_char c :: nat) < 128)"

definition toLowerCase_char :: "char \<Rightarrow> char" where
  "toLowerCase_char c =
     (let n = (of_char c :: nat) in if 65 \<le> n \<and> n \<le> 90 then char_of (n + 32) else c)"

definition ascii_lower :: "string \<Rightarrow> string" where
  "ascii_lower s = map toLowerCase_char s"

definition toLowerCase :: "(string \<Rightarrow> string) \<Rightarrow> string \<Rightarrow> string" where
  "toLowerCase unicode_lower s = (if list_all is_ascii s then ascii_lower s else unicode_lower s)"

text \<open>
  \<^verbatim>\<open>LIKE\<close> of PostgreSQL on UTF-8 text, pattern first. A literal pattern byte must
  equal the next byte of the text; \<^verbatim>\<open>_\<close> takes one character of the text, that is one
  byte and the continuation bytes (\<^verbatim>\<open>10xxxxxx\<close>) after it; \<^verbatim>\<open>%\<close> takes any run of
  whole characters; a backslash makes the next pattern byte literal. PostgreSQL raises an
  error when the matcher reaches a backslash that ends the pattern; that branch is
  \<^term>\<open>False\<close> here, and the route's patterns, which end in \<^verbatim>\<open>%\<close>, never have one.
\<close>

definition is_continuation :: "char \<Rightarrow> bool" where
  "is_continuation c = (let n = (of_char c :: nat) in 128 \<le> n \<and> n < 192)"

function like_match :: "string \<Rightarrow> string \<Rightarrow> bool" where
  "like_match [] t = (t = [])"
| "like_match (p # ps) [] = (p = CHR ''%'' \<and> like_match ps [])"
| "like_match (p # ps) (c # cs) =
     (if p = CHR ''%'' then like_match ps (c # cs) \<or> like_match (p # ps) (dropWhile is_continuation cs)
      else if p = CHR ''_'' then like_match ps (dropWhile is_continuation cs)
      else if p = CHR 0x5C then (case ps of [] \<Rightarrow> False | q # qs \<Rightarrow> q = c \<and> like_match qs cs)
      else p = c \<and> like_match ps cs)"
  by pat_completeness auto

termination
  by (relation "measure (\<lambda>(p, t). length p + length t)")
    (auto simp: less_Suc_eq_le le_SucI length_dropWhile_le)

text \<open>
  \<^verbatim>\<open>text ILIKE pattern\<close> in a UTF-8 database: \<^verbatim>\<open>LIKE\<close> on the text and the pattern
  after the \<^verbatim>\<open>lower\<close> of the database has been applied to each.
\<close>

definition ilike :: "(string \<Rightarrow> string) \<Rightarrow> string \<Rightarrow> string \<Rightarrow> bool" where
  "ilike lower txt pattern = like_match (lower pattern) (lower txt)"

definition select_sql :: string where
  "select_sql = ''SELECT *, count(*) OVER() AS total_count FROM reviews WHERE review ILIKE $1 LIMIT 10''"

definition matching_rows :: "pg_store \<Rightarrow> string \<Rightarrow> review_row list" where
  "matching_rows db pattern = filter (\<lambda>r. ilike (pg_lower db) (col_review r) pattern) (reviews db)"

definition result_row :: "nat \<Rightarrow> review_row \<Rightarrow> pg_row" where
  "result_row n r =
     [(''id'', Pg_int (col_id r)),
      (''external_id'', (case col_external_id r of None \<Rightarrow> Pg_null | Some e \<Rightarrow> Pg_int e)),
      (''review'', Pg_text (col_review r)),
      (''sentiment'', Pg_int (col_sentiment r)),
      (''total_count'', Pg_text (show_nat n))]"

text \<open>
  The statement of the route: the window aggregate \<^verbatim>\<open>count(*) OVER()\<close> is evaluated
  on all the rows that pass the \<^verbatim>\<open>WHERE\<close> clause, before \<^verbatim>\<open>LIMIT 10\<close> cuts the
  result; with no \<^verbatim>\<open>ORDER BY\<close> the rows come in the order of the store.
\<close>

definition select_reviews :: "pg_store \<Rightarrow> string \<Rightarrow> pg_row list" where
  "select_reviews db pattern =
     (let matched = matching_rows db pattern
      in map (result_row (length matched)) (take 10 matched))"

text \<open>
  The statement of \<^verbatim>\<open>insertBatch\<close> in \<^verbatim>\<open>scripts/seed-pg.mjs\<close>, for a batch of
  \<open>n\<close> records, and its effect on the values the script binds (a number, a text and
  a number per record): every proposed row draws the next value of the sequence; a row
  whose \<^verbatim>\<open>external_id\<close> is already present is skipped
  (\<^verbatim>\<open>ON CONFLICT (external_id) DO NOTHING\<close>); a drawn \<^verbatim>\<open>id\<close> that is already
  present violates the primary key and fails the statement.
\<close>

definition insertBatch_sql :: "nat \<Rightarrow> string" where
  "insertBatch_sql n =
     ''\<newline>        INSERT INTO reviews (external_id, review, sentiment)\<newline>        VALUES '' @
     join '',''
       (map (\<lambda>i. ''($'' @ show_nat (i * 3 + 1) @ '', $'' @ show_nat (i * 3 + 2) @ '', $'' @
                   show_nat (i * 3 + 3) @ '')'') [0..<n]) @
     ''\<newline>        ON CONFLICT (external_id) DO NOTHING\<newline>    ''"

fun insert_params_ok :: "pg_value list \<Rightarrow> bool" where
  "insert_params_ok [] = True"
| "insert_params_ok (Pg_int e # Pg_text r # Pg_int s # rest) =
     (CHR 0x00 \<notin> set r \<and> insert_params_ok rest)"
| "insert_params_ok _ = False"

fun insert_values :: "pg_value list \<Rightarrow> pg_store \<Rightarrow> bool \<times> pg_store" where
  "insert_values [] db = (True, db)"
| "insert_values (Pg_int e # Pg_text r # Pg_int s # rest) db =
     (let i = reviews_id_seq db + 1;
          db' = db\<lparr>reviews_id_seq := i\<rparr>
      in if Some e \<in> set (map col_external_id (reviews db)) then insert_values rest db'
         else if i \<in> set (map col_id (reviews db)) then (False, db')
         else insert_values rest
                (db'\<lparr>reviews := reviews db @
                   [\<lparr>col_id = i, col_external_id = Some e, col_review = r, col_sentiment = s\<rparr>]\<rparr>))"
| "insert_values _ db = (False, db)"

datatype js_error = Rejected string | TypeError string

text \<open>
  \<^verbatim>\<open>pool.query(text, values)\<close>: the answer of the store and the store afterwards. A
  text value with the byte 0 (a JavaScript string may hold \<^verbatim>\<open>U+0000\<close>) is refused by
  the store. A statement that fails leaves the
  rows as they were; the values it drew from the sequence are not given back.
\<close>

definition pg_execute :: "pg_store \<Rightarrow> string \<Rightarrow> pg_value list \<Rightarrow> (js_error + pg_row list) \<times> pg_store" where
  "pg_execute db sql params =
     (if sql = select_sql then
        (case params of
           [Pg_text pattern] \<Rightarrow>
             if CHR 0x00 \<in> set pattern
             then (Inl (Rejected ''invalid byte sequence for encoding UTF8: 0x00''), db)
             else (Inr (select_reviews db pattern), db)
         | _ \<Rightarrow> (Inl (Rejected ''bind message supplies the wrong parameters''), db))
      else if params \<noteq> [] \<and> length params mod 3 = 0 \<and> sql = insertBatch_sql (length params div 3) then
        (if \<not> insert_params_ok params then (Inl (Rejected ''invalid input syntax''), db)
         else case insert_values params db of
                (True, db') \<Rightarrow> (Inr [], db')
              | (False, db') \<Rightarrow>
                  (Inl (Rejected ''duplicate key value violates unique constraint''),
                   db\<lparr>reviews_id_seq := reviews_id_seq db'\<rparr>))
      else (Inl (Rejected ''statement not supported''), db))"

section \<open>The search engine\<close>

text \<open>
  The index lives in an external cluster. The model takes the engine as it answers: a
  function from the request of \<^verbatim>\<open>client.search\<close> to a failure or a response, of which
  the route reads \<^verbatim>\<open>hits.total\<close> (an object with \<^verbatim>\<open>value\<close> and \<^verbatim>\<open>relation\<close>, or a
  bare number) and the \<^verbatim>\<open>_source\<close> of every hit.
\<close>

record es_request =
  es_index :: string
  query_string_query :: string
  query_string_fields :: "string list"
  default_operator :: string
  analyze_wildcard :: bool
  es_size :: nat

datatype es_total = Total_object int string | Total_number int

record es_hit =
  hit_id :: string
  hit_source :: json

record es_response =
  hits_total :: es_total
  hits_hits :: "es_hit list"

text \<open>
  What the search API answers when \<open>matched\<close> are the hits that match the query of
  the request, best score first: the first \<^verbatim>\<open>size\<close> of them, and their number as
  \<^verbatim>\<open>hits.total\<close>. A request that does not set \<^verbatim>\<open>track_total_hits\<close>, as the route's
  does not, has its matches counted up to 10000: beyond that the total is the object
  \<^verbatim>\<open>{value: 10000, relation: "gte"}\<close>. An engine that reports the total as a bare
  number reports the exact count.
\<close>

datatype total_format = As_object | As_number

definition engine_total :: "total_format \<Rightarrow> nat \<Rightarrow> es_total" where
  "engine_total fmt m =
     (case fmt of
        As_number \<Rightarrow> Total_number (int m)
      | As_object \<Rightarrow> if m \<le> 10000 then Total_object (int m) ''eq'' else Total_object 10000 ''gte'')"

definition engine_response :: "total_format \<Rightarrow> es_hit list \<Rightarrow> es_request \<Rightarrow> es_response" where
  "engine_response fmt matched req =
     \<lparr>hits_total = engine_total fmt (length matched), hits_hits = take (es_size req) matched\<rparr>"

section \<open>The response stream\<close>

text \<open>
  The controller of a \<^verbatim>\<open>ReadableStream\<close> (WHATWG Streams): \<^verbatim>\<open>enqueue\<close> and
  \<^verbatim>\<open>close\<close> throw a \<^verbatim>\<open>TypeError\<close> unless the stream is readable, \<^verbatim>\<open>error\<close>
  does nothing unless it is. The field \<open>enqueued\<close> holds the chunks the stream has
  accepted, in order.
\<close>

datatype stream_state = Readable | Closed | Errored js_error

record controller =
  enqueued :: "string list"
  stream :: stream_state

definition controller_enqueue :: "string \<Rightarrow> controller \<Rightarrow> js_error + controller" where
  "controller_enqueue chunk c =
     (if stream c = Readable then Inr (c\<lparr>enqueued := enqueued c @ [chunk]\<rparr>)
      else Inl (TypeError ''Invalid state: Controller is already closed''))"

definition controller_close :: "controller \<Rightarrow> js_error + controller" where
  "controller_close c =
     (if stream c = Readable then Inr (c\<lparr>stream := Closed\<rparr>)
      else Inl (TypeError ''Invalid state: Controller is already closed''))"

definition controller_error :: "js_error \<Rightarrow> controller \<Rightarrow> controller" where
  "controller_error e c = (if stream c = Readable then c\<lparr>stream := Errored e\<rparr> else c)"

text \<open>\<^verbatim>\<open>TextEncoder.encode\<close>: the UTF-8 bytes of the text, which a byte string already is.\<close>

definition encode :: "string \<Rightarrow> string" where
  "encode s = s"

text \<open>
  \<^verbatim>\<open>sendData\<close>: the payload is \<^verbatim>\<open>JSON.stringify({ source, data, time })\<close>, the chunk
  is the encoding of \<^verbatim>\<open>data: \<close> followed by the payload and two line feeds.
\<close>

definition payload :: "string \<Rightarrow> json \<Rightarrow> int \<Rightarrow> string" where
  "payload source data time =
     stringify (JObj [(''source'', JStr source), (''data'', data), (''time'', JNum time)])"

definition event_chunk :: "string \<Rightarrow> json \<Rightarrow> int \<Rightarrow> string" where
  "event_chunk source data time = encode (''data: '' @ payload source data time @ ''\<newline>\<newline>'')"

definition sendData :: "string \<Rightarrow> json \<Rightarrow> int \<Rightarrow> controller \<Rightarrow> js_error + controller" where
  "sendData source data time c = controller_enqueue (event_chunk source data time) c"

section \<open>The two lookups\<close>

datatype backend_request = Pg_query string "pg_value list" | Es_search es_request

text \<open>
  Each lookup is an \<^verbatim>\<open>async\<close> function with one \<^verbatim>\<open>await\<close>: it runs up to the call
  of its backend (the request below), and resumes when the backend has answered. The
  number it then passes to \<^verbatim>\<open>sendData\<close> is \<^verbatim>\<open>Math.round(end - start)\<close>, computed in
  floating point from two readings of \<^verbatim>\<open>performance.now()\<close>, one before the call and one
  on resumption. The model has no clock: that number, an integer, is the argument
  \<open>time\<close> of the resumed lookup.
\<close>

definition postgresSearch_request :: "string \<Rightarrow> backend_request" where
  "postgresSearch_request query = Pg_query select_sql [Pg_text (''%'' @ query @ ''%'')]"

definition elasticSearch_body :: "(string \<Rightarrow> string) \<Rightarrow> string \<Rightarrow> es_request" where
  "elasticSearch_body unicode_lower query =
     \<lparr>es_index = ''reviews'',
      query_string_query = ''*'' @ toLowerCase unicode_lower query @ ''*'',
      query_string_fields = [''review''],
      default_operator = ''OR'',
      analyze_wildcard = True,
      es_size = 10\<rparr>"

definition elasticSearch_request :: "(string \<Rightarrow> string) \<Rightarrow> string \<Rightarrow> backend_request" where
  "elasticSearch_request unicode_lower query = Es_search (elasticSearch_body unicode_lower query)"

text \<open>
  \<^verbatim>\<open>rows[0].total_count\<close> read through \<^verbatim>\<open>parseInt\<close> (a missing property and
  \<^verbatim>\<open>null\<close> give NaN), and the rows with the property \<^verbatim>\<open>total_count\<close> taken out.
\<close>

definition parseInt_value :: "pg_value option \<Rightarrow> int option" where
  "parseInt_value v =
     (case v of
        Some (Pg_text s) \<Rightarrow> parseInt s
      | Some (Pg_int n) \<Rightarrow> Some n
      | _ \<Rightarrow> None)"

definition postgres_total :: "pg_row list \<Rightarrow> int option" where
  "postgres_total rows =
     (if length rows > 0 then parseInt_value (map_of (hd rows) ''total_count'') else Some 0)"

definition rest_of_row :: "pg_row \<Rightarrow> pg_row" where
  "rest_of_row r = filter (\<lambda>kv. fst kv \<noteq> ''total_count'') r"

definition postgres_data :: "pg_row list \<Rightarrow> pg_row list" where
  "postgres_data rows = map rest_of_row rows"

definition postgres_payload :: "pg_row list \<Rightarrow> json" where
  "postgres_payload rows =
     JObj [(''data'', JArr (map row_json (postgres_data rows))),
           (''total'', number_json (postgres_total rows))]"

definition postgresSearch_resume ::
    "js_error + pg_row list \<Rightarrow> int \<Rightarrow> controller \<Rightarrow> js_error + controller" where
  "postgresSearch_resume answer time c =
     (case answer of
        Inl e \<Rightarrow> Inl e
      | Inr rows \<Rightarrow> sendData ''postgres'' (postgres_payload rows) time c)"

definition elastic_total :: "es_response \<Rightarrow> int" where
  "elastic_total result = (case hits_total result of Total_object v rel \<Rightarrow> v | Total_number n \<Rightarrow> n)"

definition elastic_data :: "es_response \<Rightarrow> json list" where
  "elastic_data result = map hit_source (hits_hits result)"

definition elastic_payload :: "es_response \<Rightarrow> json" where
  "elastic_payload result =
     JObj [(''data'', JArr (elastic_data result)), (''total'', JNum (elastic_total result))]"

definition elasticSearch_resume ::
    "js_error + es_response \<Rightarrow> int \<Rightarrow> controller \<Rightarrow> js_error + controller" where
  "elasticSearch_resume answer time c =
     (case answer of
        Inl e \<Rightarrow> Inl e
      | Inr result \<Rightarrow> sendData ''elastic'' (elastic_payload result) time c)"

section \<open>The handler and its event loop\<close>

text \<open>
  The state of one request after \<^verbatim>\<open>start(controller)\<close> has run to its
  \<^verbatim>\<open>await Promise.all\<close>: the stream, the promise of each lookup, whether the
  \<^verbatim>\<open>await\<close> has resumed, what \<^verbatim>\<open>console.error\<close> has logged, and the backend
  requests issued so far.
\<close>

datatype task = Pending | Fulfilled | Failed js_error

record run_state =
  ctrl :: controller
  pg_task :: task
  es_task :: task
  settled :: bool
  console :: "js_error list"
  requests :: "backend_request list"

text \<open>
  \<^verbatim>\<open>postgresSearch()\<close> and \<^verbatim>\<open>elasticSearch()\<close> are both called while the array
  for \<^verbatim>\<open>Promise.all\<close> is built: each runs to its backend call and returns a pending
  promise.
\<close>

definition start :: "(string \<Rightarrow> string) \<Rightarrow> string \<Rightarrow> run_state" where
  "start unicode_lower query =
     \<lparr>ctrl = \<lparr>enqueued = [], stream = Readable\<rparr>,
      pg_task = Pending, es_task = Pending,
      settled = False, console = [],
      requests = [postgresSearch_request query, elasticSearch_request unicode_lower query]\<rparr>"

text \<open>The \<^verbatim>\<open>catch\<close> block: the error is logged and the stream is errored.\<close>

definition catch_block :: "js_error \<Rightarrow> run_state \<Rightarrow> run_state" where
  "catch_block e s =
     s\<lparr>console := console s @ [e], ctrl := controller_error e (ctrl s), settled := True\<rparr>"

text \<open>
  \<^verbatim>\<open>await Promise.all([...])\<close> followed by \<^verbatim>\<open>controller.close()\<close>, inside the
  \<^verbatim>\<open>try\<close>: the await resumes once, with the first rejection or when both promises are
  fulfilled; a promise that settles later finds nobody waiting.
\<close>

definition promise_all :: "run_state \<Rightarrow> run_state" where
  "promise_all s =
     (if settled s then s
      else case (pg_task s, es_task s) of
             (Failed e, _) \<Rightarrow> catch_block e s
           | (_, Failed e) \<Rightarrow> catch_block e s
           | (Fulfilled, Fulfilled) \<Rightarrow>
               (case controller_close (ctrl s) of
                  Inr c \<Rightarrow> s\<lparr>ctrl := c, settled := True\<rparr>
                | Inl e \<Rightarrow> catch_block e s)
           | _ \<Rightarrow> s)"

text \<open>
  An event is the answer of one backend reaching the event loop, with the time the
  resumed lookup computes for it. The lookup runs to its end, then the jobs waiting on
  its promise run.
\<close>

datatype event =
    Pg_settled "js_error + pg_row list" int
  | Es_settled "js_error + es_response" int

fun step :: "event \<Rightarrow> run_state \<Rightarrow> run_state" where
  "step (Pg_settled answer time) s =
     (if pg_task s \<noteq> Pending then s
      else case postgresSearch_resume answer time (ctrl s) of
             Inr c \<Rightarrow> promise_all (s\<lparr>ctrl := c, pg_task := Fulfilled\<rparr>)
           | Inl e \<Rightarrow> promise_all (s\<lparr>pg_task := Failed e\<rparr>))"
| "step (Es_settled answer time) s =
     (if es_task s \<noteq> Pending then s
      else case elasticSearch_resume answer time (ctrl s) of
             Inr c \<Rightarrow> promise_all (s\<lparr>ctrl := c, es_task := Fulfilled\<rparr>)
           | Inl e \<Rightarrow> promise_all (s\<lparr>es_task := Failed e\<rparr>))"

fun run :: "run_state \<Rightarrow> event list \<Rightarrow> run_state" where
  "run s [] = s"
| "run s (e # es) = run (step e s) es"

datatype http_body = Json_body json | Event_stream run_state

record http_response =
  status :: nat
  headers :: "(string \<times> string) list"
  body :: http_body

text \<open>
  \<^verbatim>\<open>GET\<close>: \<open>q\<close> is \<^verbatim>\<open>searchParams.get('q')\<close>, \<^term>\<open>None\<close> when the parameter is
  absent. \<^verbatim>\<open>!query\<close> holds of \<^verbatim>\<open>null\<close> and of the empty string.
\<close>

definition required_message :: string where
  \<open>required_message = ''Query parameter "q" is required''\<close>

definition bad_request :: http_response where
  "bad_request =
     \<lparr>status = 400, headers = [(''content-type'', ''application/json'')],
      body = Json_body (JObj [(''error'', JStr required_message)])\<rparr>"

definition GET :: "(string \<Rightarrow> string) \<Rightarrow> string option \<Rightarrow> http_response" where
  "GET unicode_lower q =
     (case q of
        None \<Rightarrow> bad_request
      | Some query \<Rightarrow>
          if query = [] then bad_request
          else
            \<lparr>status = 200,
             headers = [(''Content-Type'', ''text/event-stream''), (''Cache-Control'', ''no-cache''),
                        (''Connection'', ''keep-alive'')],
             body = Event_stream (start unicode_lower query)\<rparr>)"

text \<open>The backend requests a response has caused.\<close>

definition dispatched :: "http_response \<Rightarrow> backend_request list" where
  "dispatched r = (case body r of Json_body j \<Rightarrow> [] | Event_stream s \<Rightarrow> requests s)"

section \<open>A request served against both stores\<close>

text \<open>
  The two stores behind the handler: the relational store and the search engine as it
  answers on its index. \<open>backend\<close> is one backend call: the answer and the stores
  afterwards (\<^verbatim>\<open>client.search\<close> is the search API, which only reads).
\<close>

record world =
  pg :: pg_store
  es :: "es_request \<Rightarrow> js_error + es_response"

datatype answer = Pg_answer "js_error + pg_row list" | Es_answer "js_error + es_response"

definition backend :: "world \<Rightarrow> backend_request \<Rightarrow> answer \<times> world" where
  "backend w req =
     (case req of
        Pg_query sql params \<Rightarrow>
          (case pg_execute (pg w) sql params of (a, db) \<Rightarrow> (Pg_answer a, w\<lparr>pg := db\<rparr>))
      | Es_search r \<Rightarrow> (Es_answer (es w r), w))"

fun answers :: "world \<Rightarrow> backend_request list \<Rightarrow> answer list \<times> world" where
  "answers w [] = ([], w)"
| "answers w (r # rs) =
     (case backend w r of (a, w') \<Rightarrow> (case answers w' rs of (as, w'') \<Rightarrow> (a # as, w'')))"

definition event_of :: "answer \<Rightarrow> int \<Rightarrow> event" where
  "event_of a t = (case a of Pg_answer x \<Rightarrow> Pg_settled x t | Es_answer x \<Rightarrow> Es_settled x t)"

text \<open>
  One whole request: the handler runs, the stores answer the requests it issued, and the
  answers reach the event loop in the order they were issued or (\<open>es_first\<close>) in the
  opposite order, with the times \<open>ts\<close>.
\<close>

definition serve ::
    "(string \<Rightarrow> string) \<Rightarrow> world \<Rightarrow> string option \<Rightarrow> bool \<Rightarrow> int list \<Rightarrow> http_response \<times> world" where
  "serve unicode_lower w q es_first ts =
     (let r = GET unicode_lower q in
      case body r of
        Json_body j \<Rightarrow> (r, w)
      | Event_stream s \<Rightarrow>
          (case answers w (requests s) of
             (as, w') \<Rightarrow>
               (r\<lparr>body := Event_stream
                    (run s (map2 event_of (if es_first then rev as else as) ts))\<rparr>, w')))"

text \<open>The total an answer makes its lookup report (\<^term>\<open>None\<close>: a failure or NaN).\<close>

definition answer_total :: "answer \<Rightarrow> int option" where
  "answer_total a =
     (case a of
        Pg_answer (Inr rows) \<Rightarrow> postgres_total rows
      | Es_answer (Inr result) \<Rightarrow> Some (elastic_total result)
      | _ \<Rightarrow> None)"

section \<open>A reference scenario\<close>

text \<open>
  Both stores seeded with the single record
  \<^verbatim>\<open>{external_id: 1, review: "a rare wombat sighting", sentiment: 0}\<close>, as
  \<^verbatim>\<open>scripts/seed-pg.mjs\<close> and \<^verbatim>\<open>scripts/seed-es.mjs\<close> would load it. The
  database has the character classification of the C locale. The queries of the scenario
  are ASCII, so the case tables of the runtime are never consulted: the runs on the
  scenario pass \<open>ascii_lower\<close> in their place.
\<close>

definition wombat_db :: pg_store where
  "wombat_db =
     \<lparr>reviews = [\<lparr>col_id = 1, col_external_id = Some 1,
                   col_review = ''a rare wombat sighting'', col_sentiment = 0\<rparr>],
      reviews_id_seq = 1, pg_lower = ascii_lower\<rparr>"

definition wombat_hit :: es_hit where
  "wombat_hit =
     \<lparr>hit_id = ''1'',
      hit_source = JObj [(''external_id'', JNum 1), (''review'', JStr ''a rare wombat sighting''),
                         (''sentiment'', JNum 0)]\<rparr>"

definition wombat_es :: "es_request \<Rightarrow> js_error + es_response" where
  "wombat_es r =
     Inr (engine_response As_object (if query_string_query r = ''*wombat*'' then [wombat_hit] else []) r)"

definition wombat_world :: world where
  "wombat_world = \<lparr>pg = wombat_db, es = wombat_es\<rparr>"

section \<open>Reachable states of a request\<close>

text \<open>
  The number of lookups that have delivered their outcome, and the invariant of the
  states the event loop can reach from \<open>start\<close>.
\<close>

definition fulfilled_count :: "run_state \<Rightarrow> nat" where
  "fulfilled_count s =
     (if pg_task s = Fulfilled then 1 else 0) + (if es_task s = Fulfilled then 1 else 0)"

definition has_failed :: "run_state \<Rightarrow> bool" where
  "has_failed s = ((\<exists>e. pg_task s = Failed e) \<or> (\<exists>e. es_task s = Failed e))"

definition outcome_chunk :: "string \<Rightarrow> bool" where
  "outcome_chunk ch =
     (\<exists>data time. ch = event_chunk ''postgres'' data time \<or> ch = event_chunk ''elastic'' data time)"

definition run_inv :: "run_state \<Rightarrow> bool" where
  "run_inv s =
     (length (enqueued (ctrl s)) = fulfilled_count s \<and>
      list_all outcome_chunk (enqueued (ctrl s)) \<and>
      (case stream (ctrl s) of
         Readable \<Rightarrow> \<not> settled s \<and> \<not> has_failed s \<and> \<not> (pg_task s = Fulfilled \<and> es_task s = Fulfilled)
       | Closed \<Rightarrow> settled s \<and> pg_task s = Fulfilled \<and> es_task s = Fulfilled
       | Errored e \<Rightarrow> settled s \<and> has_failed s))"

text \<open>
  The answers the runs of the query \<^verbatim>\<open>wombat\<close> below are built from: the answer
  of the relational store to the statement of the route, the answer of the search engine,
  and the failure of a backend that cannot be reached.
\<close>

definition wombat_rows :: "js_error + pg_row list" where
  "wombat_rows = fst (pg_execute wombat_db select_sql [Pg_text ''%wombat%''])"

definition wombat_hits :: "js_error + es_response" where
  "wombat_hits = Inr \<lparr>hits_total = Total_object 1 ''eq'', hits_hits = [wombat_hit]\<rparr>"

definition connection_refused :: js_error where
  "connection_refused = Rejected ''connect ECONNREFUSED''"

text \<open>
  A store of twelve reviews of which eleven mention the wombat.
\<close>

definition wombat_review :: "nat \<Rightarrow> review_row" where
  "wombat_review i =
     \<lparr>col_id = int i, col_external_id = Some (int i),
      col_review = (if i = 12 then ''only a koala'' else ''a Wombat again''), col_sentiment = 1\<rparr>"

definition many_db :: pg_store where
  "many_db = \<lparr>reviews = map wombat_review [1..<13], reviews_id_seq = 12, pg_lower = ascii_lower\<rparr>"


section \<open>Queries without pattern characters\<close>

text \<open>
  A query is plain when it has none of the characters \<^verbatim>\<open>LIKE\<close> gives a meaning to:
  the percent sign, the underscore and the backslash.
\<close>

definition like_plain :: "string \<Rightarrow> bool" where
  "like_plain q = list_all (\<lambda>c. c \<noteq> CHR ''%'' \<and> c \<noteq> CHR ''_'' \<and> c \<noteq> CHR 0x5C) q"

text \<open>
  A text starts a character when it is not empty and its first byte is not a
  continuation byte, as every non-empty UTF-8 text does.
\<close>

definition starts_character :: "string \<Rightarrow> bool" where
  "starts_character s = (case s of [] \<Rightarrow> False | c # cs \<Rightarrow> \<not> is_continuation c)"

definition quoted_db :: pg_store where
  "quoted_db =
     \<lparr>reviews =
        [\<lparr>col_id = 1, col_external_id = Some 1, col_review = ''a rare wombat sighting'', col_sentiment = 0\<rparr>,
         \<lparr>col_id = 2, col_external_id = Some 2, col_review = ''he typed x' or '1'='1 again'', col_sentiment = 1\<rparr>],
      reviews_id_seq = 2, pg_lower = ascii_lower\<rparr>"

text \<open>
  A database whose \<^verbatim>\<open>lower\<close> folds the letter \<^verbatim>\<open>U+00C9\<close> (the bytes C3 89) to
  \<^verbatim>\<open>U+00E9\<close> (C3 A9) as well, as a collation that knows the Latin letters does; the
  scenario has no other character outside ASCII. Its first review is
  \<^verbatim>\<open>un caf\<close>, \<^verbatim>\<open>U+00E9\<close>, \<^verbatim>\<open> noir\<close>.
\<close>

fun accent_lower :: "string \<Rightarrow> string" where
  "accent_lower [] = []"
| "accent_lower [a] = [toLowerCase_char a]"
| "accent_lower (a # b # cs) =
     (if a = CHR 0xC3 \<and> b = CHR 0x89 then CHR 0xC3 # CHR 0xA9 # accent_lower cs
      else toLowerCase_char a # accent_lower (b # cs))"

definition cafe_db :: pg_store where
  "cafe_db =
     \<lparr>reviews =
        [\<lparr>col_id = 1, col_external_id = Some 1,
          col_review = ''un caf'' @ [CHR 0xC3, CHR 0xA9] @ '' noir'', col_sentiment = 1\<rparr>,
         \<lparr>col_id = 2, col_external_id = Some 2, col_review = ''a cafeteria'', col_sentiment = 0\<rparr>],
      reviews_id_seq = 2, pg_lower = accent_lower\<rparr>"

section \<open>Reading back the count\<close>

lemma of_char_digit_char: "d < 10 \<Longrightarrow> (of_char (digit_char d) :: nat) = 48 + d"
  by (simp add: digit_char_def)

lemma is_digit_digit_char: "d < 10 \<Longrightarrow> is_digit (digit_char d)"
  by (simp add: is_digit_def of_char_digit_char)

lemma digit_val_digit_char: "d < 10 \<Longrightarrow> digit_val (digit_char d) = d"
  by (simp add: digit_val_def of_char_digit_char)

lemma show_nat_digits: "c \<in> set (show_nat n) \<Longrightarrow> is_digit c"
proof (induction n arbitrary: c rule: show_nat.induct)
  case (1 n)
  show ?case
  proof (cases "n < 10")
    case True
    with "1.prems" show ?thesis
      by (simp add: show_nat.simps [of n] is_digit_digit_char)
  next
    case False
    with "1.prems" have "c \<in> set (show_nat (n div 10)) \<or> c = digit_char (n mod 10)"
      by (auto simp: show_nat.simps [of n])
    then show ?thesis
      using "1.IH" [OF False] by (auto simp: is_digit_digit_char)
  qed
qed

lemma show_nat_not_Nil: "show_nat n \<noteq> []"
  by (simp add: show_nat.simps [of n])

lemma digits_value_snoc: "digits_value r (ds @ [d]) = r * digits_value r ds + digit_val d"
  by (simp add: digits_value_def)

lemma digits_value_show_nat: "digits_value 10 (show_nat n) = n"
proof (induction n rule: show_nat.induct)
  case (1 n)
  show ?case
  proof (cases "n < 10")
    case True
    then show ?thesis
      by (simp add: show_nat.simps [of n] digits_value_def digit_val_digit_char)
  next
    case False
    then show ?thesis
      using "1.IH" by (simp add: show_nat.simps [of n] digits_value_snoc digit_val_digit_char)
  qed
qed

lemma is_digit_plain:
  "is_digit c \<Longrightarrow> \<not> is_js_space c \<and> c \<noteq> CHR ''-'' \<and> c \<noteq> CHR ''+'' \<and> c \<noteq> CHR ''x'' \<and> c \<noteq> CHR ''X''"
  by (auto simp: is_digit_def is_js_space_def)

lemma takeWhile_all: "\<forall>c \<in> set xs. P c \<Longrightarrow> takeWhile P xs = xs"
  by (induction xs) auto

lemma parseInt_digits:
  assumes "ds \<noteq> []" and "\<forall>c \<in> set ds. is_digit c"
  shows "parseInt ds = Some (int (digits_value 10 ds))"
proof -
  from assms obtain c cs where ds: "ds = c # cs"
    by (cases ds) auto
  with assms have c: "is_digit c" and cs: "\<forall>d \<in> set cs. is_digit d"
    by auto
  have t: "dropWhile is_js_space ds = ds"
    using is_digit_plain [OF c] by (simp add: ds)
  have neg: "(case ds of [] \<Rightarrow> False | c # _ \<Rightarrow> c = CHR ''-'') = False"
    using is_digit_plain [OF c] by (simp add: ds)
  have u: "(case ds of [] \<Rightarrow> [] | c # r \<Rightarrow> if c = CHR ''-'' \<or> c = CHR ''+'' then r else ds) = ds"
    using is_digit_plain [OF c] by (simp add: ds)
  have hex: "(take 2 ds = ''0x'' \<or> take 2 ds = ''0X'') = False"
  proof (cases cs)
    case Nil
    then show ?thesis by (simp add: ds)
  next
    case (Cons d ds')
    with cs have "is_digit d" by simp
    with Cons show ?thesis using is_digit_plain [of d] by (auto simp: ds)
  qed
  have tw: "takeWhile is_digit ds = ds"
    using assms(2) by (simp add: takeWhile_all)
  show ?thesis
    unfolding parseInt_def Let_def t neg u hex tw
    using assms(1) by simp
qed

lemma parseInt_show_nat: "parseInt (show_nat n) = Some (int n)"
  using parseInt_digits [of "show_nat n"] show_nat_digits [of _ n]
  by (simp add: show_nat_not_Nil digits_value_show_nat)

section \<open>Rejection of an empty query\<close>

text \<open>
  C4 (as amended). A request whose parameter \<^verbatim>\<open>q\<close> is absent or is the empty string is
  answered with status 400 and the JSON body \<^verbatim>\<open>{"error": ...}\<close>; no backend request is
  issued and no stream is opened. These are the only requests answered with 400: the
  handler tests \<^verbatim>\<open>!query\<close> and does not trim.
\<close>

theorem empty_query_rejected:
  "((q = None \<or> q = Some '''') \<longrightarrow>
      status (GET unicode_lower q) = 400 \<and>
      body (GET unicode_lower q) = Json_body (JObj [(''error'', JStr required_message)]) \<and>
      dispatched (GET unicode_lower q) = []) \<and>
   (status (GET unicode_lower q) = 400 \<longrightarrow> q = None \<or> q = Some '''')"
  by (auto simp: GET_def bad_request_def dispatched_def split: option.splits)

theorem empty_query_rejected_witness:
  "status (GET ascii_lower None) = 400 \<and>
   body (GET ascii_lower None) = Json_body (JObj [(''error'', JStr required_message)]) \<and>
   dispatched (GET ascii_lower None) = [] \<and>
   status (GET ascii_lower (Some '''')) = 400 \<and>
   dispatched (GET ascii_lower (Some '''')) = []"
  using empty_query_rejected [of None ascii_lower] empty_query_rejected [of "Some ''''" ascii_lower]
  by simp

text \<open>
  C4 as stated fails for a query of white space only: \<^verbatim>\<open>GET /search?q=%20\<close> is
  accepted, the stream is opened and both backends are queried.
\<close>

theorem whitespace_query_is_searched:
  "status (GET ascii_lower (Some '' '')) = 200 \<and>
   body (GET ascii_lower (Some '' '')) = Event_stream (start ascii_lower '' '') \<and>
   dispatched (GET ascii_lower (Some '' '')) =
     [Pg_query select_sql [Pg_text ''% %''],
      Es_search \<lparr>es_index = ''reviews'', query_string_query = ''* *'',
                 query_string_fields = [''review''], default_operator = ''OR'',
                 analyze_wildcard = True, es_size = 10\<rparr>]"
  by (simp add: GET_def dispatched_def start_def postgresSearch_request_def
      elasticSearch_request_def elasticSearch_body_def toLowerCase_def is_ascii_def
      ascii_lower_def toLowerCase_char_def)

section \<open>The event loop, step by step\<close>

lemma run_inv_start: "run_inv (start unicode_lower query)"
  by (simp add: run_inv_def start_def fulfilled_count_def has_failed_def)

lemma sendData_cases:
  "sendData source data time c =
     (if stream c = Readable then Inr (c\<lparr>enqueued := enqueued c @ [event_chunk source data time]\<rparr>)
      else Inl (TypeError ''Invalid state: Controller is already closed''))"
  by (simp add: sendData_def controller_enqueue_def)

lemma promise_all_settled: "settled s \<Longrightarrow> promise_all s = s"
  by (simp add: promise_all_def)

lemma promise_all_pg_failed:
  "\<not> settled s \<Longrightarrow> pg_task s = Failed e \<Longrightarrow> promise_all s = catch_block e s"
  by (simp add: promise_all_def)

lemma promise_all_es_failed:
  "\<not> settled s \<Longrightarrow> es_task s = Failed e \<Longrightarrow> \<forall>e'. pg_task s \<noteq> Failed e' \<Longrightarrow>
   promise_all s = catch_block e s"
  by (cases "pg_task s") (simp_all add: promise_all_def)

lemma promise_all_both:
  "\<not> settled s \<Longrightarrow> pg_task s = Fulfilled \<Longrightarrow> es_task s = Fulfilled \<Longrightarrow>
   stream (ctrl s) = Readable \<Longrightarrow>
   promise_all s = s\<lparr>ctrl := (ctrl s)\<lparr>stream := Closed\<rparr>, settled := True\<rparr>"
  by (simp add: promise_all_def controller_close_def)

lemma promise_all_waiting:
  "pg_task s = Pending \<Longrightarrow> es_task s \<in> {Pending, Fulfilled} \<Longrightarrow> promise_all s = s"
  "es_task s = Pending \<Longrightarrow> pg_task s \<in> {Pending, Fulfilled} \<Longrightarrow> promise_all s = s"
  by (auto simp: promise_all_def)


lemma step_pg_ignored: "pg_task s \<noteq> Pending \<Longrightarrow> step (Pg_settled a t) s = s"
  by simp

lemma step_es_ignored: "es_task s \<noteq> Pending \<Longrightarrow> step (Es_settled a t) s = s"
  by simp

lemma step_pg_reject:
  "pg_task s = Pending \<Longrightarrow> step (Pg_settled (Inl e) t) s = promise_all (s\<lparr>pg_task := Failed e\<rparr>)"
  by (simp add: postgresSearch_resume_def)

lemma step_es_reject:
  "es_task s = Pending \<Longrightarrow> step (Es_settled (Inl e) t) s = promise_all (s\<lparr>es_task := Failed e\<rparr>)"
  by (simp add: elasticSearch_resume_def)

lemma step_pg_ok:
  "pg_task s = Pending \<Longrightarrow> stream (ctrl s) = Readable \<Longrightarrow>
   step (Pg_settled (Inr rows) t) s =
     promise_all (s\<lparr>ctrl := (ctrl s)\<lparr>enqueued := enqueued (ctrl s) @
         [event_chunk ''postgres'' (postgres_payload rows) t]\<rparr>,
       pg_task := Fulfilled\<rparr>)"
  by (simp add: postgresSearch_resume_def sendData_cases)

lemma step_es_ok:
  "es_task s = Pending \<Longrightarrow> stream (ctrl s) = Readable \<Longrightarrow>
   step (Es_settled (Inr result) t) s =
     promise_all (s\<lparr>ctrl := (ctrl s)\<lparr>enqueued := enqueued (ctrl s) @
         [event_chunk ''elastic'' (elastic_payload result) t]\<rparr>,
       es_task := Fulfilled\<rparr>)"
  by (simp add: elasticSearch_resume_def sendData_cases)

lemma step_pg_late:
  "pg_task s = Pending \<Longrightarrow> stream (ctrl s) \<noteq> Readable \<Longrightarrow>
   step (Pg_settled (Inr rows) t) s =
     promise_all (s\<lparr>pg_task := Failed (TypeError ''Invalid state: Controller is already closed'')\<rparr>)"
  by (simp add: postgresSearch_resume_def sendData_cases)

lemma step_es_late:
  "es_task s = Pending \<Longrightarrow> stream (ctrl s) \<noteq> Readable \<Longrightarrow>
   step (Es_settled (Inr result) t) s =
     promise_all (s\<lparr>es_task := Failed (TypeError ''Invalid state: Controller is already closed'')\<rparr>)"
  by (simp add: elasticSearch_resume_def sendData_cases)


declare step.simps [simp del]

lemma not_failed_cases:
  "\<not> has_failed s \<Longrightarrow> pg_task s \<in> {Pending, Fulfilled} \<and> es_task s \<in> {Pending, Fulfilled}"
  by (cases "pg_task s"; cases "es_task s") (auto simp: has_failed_def)

lemma outcome_chunk_postgres: "outcome_chunk (event_chunk ''postgres'' d t)"
  and outcome_chunk_elastic: "outcome_chunk (event_chunk ''elastic'' d t)"
  by (auto simp: outcome_chunk_def)

lemma run_inv_pg:
  assumes inv: "run_inv s" and pend: "pg_task s = Pending"
  shows "run_inv (step (Pg_settled answer now) s)"
proof (cases "stream (ctrl s)")
  case Readable
  with inv have ns: "\<not> settled s" and nf: "\<not> has_failed s"
    and len: "length (enqueued (ctrl s)) = fulfilled_count s"
    and chunks: "list_all outcome_chunk (enqueued (ctrl s))"
    by (simp_all add: run_inv_def)
  from not_failed_cases [OF nf] have es: "es_task s = Pending \<or> es_task s = Fulfilled"
    by simp
  show ?thesis
  proof (cases answer)
    case (Inl e)
    have "step (Pg_settled answer now) s = catch_block e (s\<lparr>pg_task := Failed e\<rparr>)"
      using pend ns by (simp add: Inl step_pg_reject promise_all_pg_failed)
    then show ?thesis
      using len chunks pend Readable
      by (simp add: run_inv_def catch_block_def controller_error_def fulfilled_count_def
          has_failed_def)
  next
    case (Inr rows)
    let ?s' = "s\<lparr>ctrl := (ctrl s)\<lparr>enqueued := enqueued (ctrl s) @
         [event_chunk ''postgres'' (postgres_payload rows) now]\<rparr>,
       pg_task := Fulfilled\<rparr>"
    have st: "step (Pg_settled answer now) s = promise_all ?s'"
      using pend Readable by (simp add: Inr step_pg_ok)
    from es show ?thesis
    proof
      assume e: "es_task s = Pending"
      then have "promise_all ?s' = ?s'"
        by (simp add: promise_all_waiting)
      then show ?thesis
        using st len chunks pend Readable ns nf e
        by (simp add: run_inv_def fulfilled_count_def has_failed_def outcome_chunk_postgres)
    next
      assume e: "es_task s = Fulfilled"
      then have "promise_all ?s' = ?s'\<lparr>ctrl := (ctrl ?s')\<lparr>stream := Closed\<rparr>, settled := True\<rparr>"
        using ns Readable by (simp add: promise_all_both)
      then show ?thesis
        using st len chunks pend e
        by (simp add: run_inv_def fulfilled_count_def outcome_chunk_postgres)
    qed
  qed
next
  case Closed
  with inv pend show ?thesis
    by (simp add: run_inv_def)
next
  case (Errored err)
  with inv have se: "settled s" and hf: "has_failed s"
    and len: "length (enqueued (ctrl s)) = fulfilled_count s"
    and chunks: "list_all outcome_chunk (enqueued (ctrl s))"
    by (simp_all add: run_inv_def)
  have "\<exists>e. step (Pg_settled answer now) s = s\<lparr>pg_task := Failed e\<rparr>"
  proof (cases answer)
    case (Inl e)
    have "step (Pg_settled answer now) s = s\<lparr>pg_task := Failed e\<rparr>"
      using pend se by (simp add: Inl step_pg_reject promise_all_settled)
    then show ?thesis ..
  next
    case (Inr rows)
    have "step (Pg_settled answer now) s =
        s\<lparr>pg_task := Failed (TypeError ''Invalid state: Controller is already closed'')\<rparr>"
      using pend se Errored by (simp add: Inr step_pg_late promise_all_settled)
    then show ?thesis ..
  qed
  then obtain e where "step (Pg_settled answer now) s = s\<lparr>pg_task := Failed e\<rparr>" ..
  then show ?thesis
    using se len chunks pend Errored
    by (simp add: run_inv_def fulfilled_count_def has_failed_def)
qed


lemma run_inv_es:
  assumes inv: "run_inv s" and pend: "es_task s = Pending"
  shows "run_inv (step (Es_settled answer now) s)"
proof (cases "stream (ctrl s)")
  case Readable
  with inv have ns: "\<not> settled s" and nf: "\<not> has_failed s"
    and len: "length (enqueued (ctrl s)) = fulfilled_count s"
    and chunks: "list_all outcome_chunk (enqueued (ctrl s))"
    by (simp_all add: run_inv_def)
  from not_failed_cases [OF nf] have pg: "pg_task s = Pending \<or> pg_task s = Fulfilled"
    by simp
  show ?thesis
  proof (cases answer)
    case (Inl e)
    have "\<forall>e'. pg_task (s\<lparr>es_task := Failed e\<rparr>) \<noteq> Failed e'"
      using pg by auto
    then have "step (Es_settled answer now) s = catch_block e (s\<lparr>es_task := Failed e\<rparr>)"
      using pend ns by (simp add: Inl step_es_reject promise_all_es_failed)
    then show ?thesis
      using len chunks pend Readable
      by (simp add: run_inv_def catch_block_def controller_error_def fulfilled_count_def
          has_failed_def)
  next
    case (Inr result)
    let ?s' = "s\<lparr>ctrl := (ctrl s)\<lparr>enqueued := enqueued (ctrl s) @
         [event_chunk ''elastic'' (elastic_payload result) now]\<rparr>,
       es_task := Fulfilled\<rparr>"
    have st: "step (Es_settled answer now) s = promise_all ?s'"
      using pend Readable by (simp add: Inr step_es_ok)
    from pg show ?thesis
    proof
      assume p: "pg_task s = Pending"
      then have "promise_all ?s' = ?s'"
        by (simp add: promise_all_waiting)
      then show ?thesis
        using st len chunks pend Readable ns nf p
        by (simp add: run_inv_def fulfilled_count_def has_failed_def outcome_chunk_elastic)
    next
      assume p: "pg_task s = Fulfilled"
      then have "promise_all ?s' = ?s'\<lparr>ctrl := (ctrl ?s')\<lparr>stream := Closed\<rparr>, settled := True\<rparr>"
        using ns Readable by (simp add: promise_all_both)
      then show ?thesis
        using st len chunks pend p
        by (simp add: run_inv_def fulfilled_count_def outcome_chunk_elastic)
    qed
  qed
next
  case Closed
  with inv pend show ?thesis
    by (simp add: run_inv_def)
next
  case (Errored err)
  with inv have se: "settled s" and hf: "has_failed s"
    and len: "length (enqueued (ctrl s)) = fulfilled_count s"
    and chunks: "list_all outcome_chunk (enqueued (ctrl s))"
    by (simp_all add: run_inv_def)
  have "\<exists>e. step (Es_settled answer now) s = s\<lparr>es_task := Failed e\<rparr>"
  proof (cases answer)
    case (Inl e)
    have "step (Es_settled answer now) s = s\<lparr>es_task := Failed e\<rparr>"
      using pend se by (simp add: Inl step_es_reject promise_all_settled)
    then show ?thesis ..
  next
    case (Inr result)
    have "step (Es_settled answer now) s =
        s\<lparr>es_task := Failed (TypeError ''Invalid state: Controller is already closed'')\<rparr>"
      using pend se Errored by (simp add: Inr step_es_late promise_all_settled)
    then show ?thesis ..
  qed
  then obtain e where "step (Es_settled answer now) s = s\<lparr>es_task := Failed e\<rparr>" ..
  then show ?thesis
    using se len chunks pend Errored
    by (simp add: run_inv_def fulfilled_count_def has_failed_def)
qed

lemma run_inv_step: "run_inv s \<Longrightarrow> run_inv (step ev s)"
proof (cases ev)
  case (Pg_settled answer now)
  assume "run_inv s"
  then show ?thesis
    by (cases "pg_task s = Pending") (simp_all add: Pg_settled run_inv_pg step_pg_ignored)
next
  case (Es_settled answer now)
  assume "run_inv s"
  then show ?thesis
    by (cases "es_task s = Pending") (simp_all add: Es_settled run_inv_es step_es_ignored)
qed

lemma run_inv_run: "run_inv s \<Longrightarrow> run_inv (run s evs)"
  by (induction evs arbitrary: s) (simp_all add: run_inv_step)

lemma fulfilled_count_le: "fulfilled_count s \<le> 2"
  by (simp add: fulfilled_count_def)

lemma start_fields:
  "pg_task (start unicode_lower query) = Pending"
  "es_task (start unicode_lower query) = Pending"
  "settled (start unicode_lower query) = False"
  "ctrl (start unicode_lower query) = \<lparr>enqueued = [], stream = Readable\<rparr>"
  "console (start unicode_lower query) = []"
  "requests (start unicode_lower query) =
     [postgresSearch_request query, elasticSearch_request unicode_lower query]"
  by (simp_all add: start_def)

lemma es_fails_then_pg:
  "run (start unicode_lower query) [Es_settled (Inl e) t1, Pg_settled (Inr rows) t2] =
     (start unicode_lower query)
       \<lparr>ctrl := \<lparr>enqueued = [], stream = Errored e\<rparr>,
        pg_task := Failed (TypeError ''Invalid state: Controller is already closed''),
        es_task := Failed e, settled := True, console := [e]\<rparr>"
  by (simp add: step_es_reject step_pg_late promise_all_es_failed promise_all_settled
      catch_block_def controller_error_def start_fields)

lemma pg_fails_then_es:
  "run (start unicode_lower query) [Pg_settled (Inl e) t1, Es_settled (Inr result) t2] =
     (start unicode_lower query)
       \<lparr>ctrl := \<lparr>enqueued = [], stream = Errored e\<rparr>,
        pg_task := Failed e,
        es_task := Failed (TypeError ''Invalid state: Controller is already closed''),
        settled := True, console := [e]\<rparr>"
  by (simp add: step_pg_reject step_es_late promise_all_pg_failed promise_all_settled
      catch_block_def controller_error_def start_fields)

lemma pg_then_es_fails:
  "run (start unicode_lower query) [Pg_settled (Inr rows) t1, Es_settled (Inl e) t2] =
     (start unicode_lower query)
       \<lparr>ctrl := \<lparr>enqueued = [event_chunk ''postgres'' (postgres_payload rows) t1],
                 stream = Errored e\<rparr>,
        pg_task := Fulfilled, es_task := Failed e, settled := True, console := [e]\<rparr>"
  by (simp add: step_pg_ok step_es_reject promise_all_waiting promise_all_es_failed
      catch_block_def controller_error_def start_fields)

lemma es_then_pg_fails:
  "run (start unicode_lower query) [Es_settled (Inr result) t1, Pg_settled (Inl e) t2] =
     (start unicode_lower query)
       \<lparr>ctrl := \<lparr>enqueued = [event_chunk ''elastic'' (elastic_payload result) t1],
                 stream = Errored e\<rparr>,
        pg_task := Failed e, es_task := Fulfilled, settled := True, console := [e]\<rparr>"
  by (simp add: step_es_ok step_pg_reject promise_all_waiting promise_all_pg_failed
      catch_block_def controller_error_def start_fields)

lemma pg_first:
  "step (Pg_settled (Inr rows) t1) (start unicode_lower query) =
     (start unicode_lower query)
       \<lparr>ctrl := \<lparr>enqueued = [event_chunk ''postgres'' (postgres_payload rows) t1],
                 stream = Readable\<rparr>,
        pg_task := Fulfilled\<rparr>"
  by (simp add: step_pg_ok promise_all_waiting start_fields)

lemma es_first:
  "step (Es_settled (Inr result) t1) (start unicode_lower query) =
     (start unicode_lower query)
       \<lparr>ctrl := \<lparr>enqueued = [event_chunk ''elastic'' (elastic_payload result) t1],
                 stream = Readable\<rparr>,
        es_task := Fulfilled\<rparr>"
  by (simp add: step_es_ok promise_all_waiting start_fields)

lemma pg_then_es:
  "run (start unicode_lower query) [Pg_settled (Inr rows) t1, Es_settled (Inr result) t2] =
     (start unicode_lower query)
       \<lparr>ctrl := \<lparr>enqueued = [event_chunk ''postgres'' (postgres_payload rows) t1,
                             event_chunk ''elastic'' (elastic_payload result) t2],
                 stream = Closed\<rparr>,
        pg_task := Fulfilled, es_task := Fulfilled, settled := True\<rparr>"
  by (simp add: pg_first step_es_ok promise_all_both start_fields)

lemma es_then_pg:
  "run (start unicode_lower query) [Es_settled (Inr result) t1, Pg_settled (Inr rows) t2] =
     (start unicode_lower query)
       \<lparr>ctrl := \<lparr>enqueued = [event_chunk ''elastic'' (elastic_payload result) t1,
                             event_chunk ''postgres'' (postgres_payload rows) t2],
                 stream = Closed\<rparr>,
        pg_task := Fulfilled, es_task := Fulfilled, settled := True\<rparr>"
  by (simp add: es_first step_pg_ok promise_all_both start_fields)

lemma promise_all_keeps:
  "enqueued (ctrl (promise_all s)) = enqueued (ctrl s)"
proof (cases "settled s")
  case True
  then show ?thesis
    by (simp add: promise_all_settled)
next
  case False
  show ?thesis
  proof (cases "pg_task s")
    case Pending
    with False show ?thesis
      by (cases "es_task s")
        (simp_all add: promise_all_def catch_block_def controller_error_def)
  next
    case Fulfilled
    with False show ?thesis
      by (cases "es_task s")
        (simp_all add: promise_all_def catch_block_def controller_error_def controller_close_def)
  next
    case (Failed e)
    with False show ?thesis
      by (simp add: promise_all_def catch_block_def controller_error_def)
  qed
qed

lemma step_chunks:
  "enqueued (ctrl (step ev s)) = enqueued (ctrl s) \<or>
   (\<exists>rows t. ev = Pg_settled (Inr rows) t \<and>
      enqueued (ctrl (step ev s)) =
        enqueued (ctrl s) @ [event_chunk ''postgres'' (postgres_payload rows) t]) \<or>
   (\<exists>result t. ev = Es_settled (Inr result) t \<and>
      enqueued (ctrl (step ev s)) =
        enqueued (ctrl s) @ [event_chunk ''elastic'' (elastic_payload result) t])"
proof (cases ev)
  case (Pg_settled a t)
  show ?thesis
  proof (cases "pg_task s = Pending \<and> stream (ctrl s) = Readable")
    case True
    then show ?thesis
      by (cases a) (simp_all add: Pg_settled step_pg_reject step_pg_ok promise_all_keeps)
  next
    case False
    then show ?thesis
      by (cases a; cases "pg_task s = Pending")
        (simp_all add: Pg_settled step_pg_ignored step_pg_reject step_pg_late promise_all_keeps)
  qed
next
  case (Es_settled a t)
  show ?thesis
  proof (cases "es_task s = Pending \<and> stream (ctrl s) = Readable")
    case True
    then show ?thesis
      by (cases a) (simp_all add: Es_settled step_es_reject step_es_ok promise_all_keeps)
  next
    case False
    then show ?thesis
      by (cases a; cases "es_task s = Pending")
        (simp_all add: Es_settled step_es_ignored step_es_reject step_es_late promise_all_keeps)
  qed
qed

section \<open>Termination of the stream\<close>

text \<open>
  C7 (as amended). Whatever answers reach the event loop, in whatever order: the stream
  never holds more than two chunks; every chunk is the outcome event of the relational
  lookup or of the search-engine lookup (no closing sentinel is ever written); the stream
  is closed only when both lookups have delivered their outcome; it is errored exactly
  when a lookup has failed, and a failure errors it at once, while the other lookup is
  still pending.
\<close>

theorem stream_termination:
  "length (enqueued (ctrl (run (start unicode_lower query) evs))) \<le> 2 \<and>
   (\<forall>ch \<in> set (enqueued (ctrl (run (start unicode_lower query) evs))).
      \<exists>data time. ch = event_chunk ''postgres'' data time \<or> ch = event_chunk ''elastic'' data time) \<and>
   (stream (ctrl (run (start unicode_lower query) evs)) = Closed \<longrightarrow>
      pg_task (run (start unicode_lower query) evs) = Fulfilled \<and>
      es_task (run (start unicode_lower query) evs) = Fulfilled \<and>
      length (enqueued (ctrl (run (start unicode_lower query) evs))) = 2) \<and>
   ((\<exists>e. stream (ctrl (run (start unicode_lower query) evs)) = Errored e) =
      ((\<exists>e. pg_task (run (start unicode_lower query) evs) = Failed e) \<or>
       (\<exists>e. es_task (run (start unicode_lower query) evs) = Failed e))) \<and>
   stream (ctrl (step (Pg_settled (Inl e) t) (start unicode_lower query))) = Errored e \<and>
   es_task (step (Pg_settled (Inl e) t) (start unicode_lower query)) = Pending \<and>
   stream (ctrl (step (Es_settled (Inl e) t) (start unicode_lower query))) = Errored e \<and>
   pg_task (step (Es_settled (Inl e) t) (start unicode_lower query)) = Pending"
proof -
  let ?s = "run (start unicode_lower query) evs"
  have inv: "run_inv ?s"
    by (rule run_inv_run [OF run_inv_start])
  then have len: "length (enqueued (ctrl ?s)) = fulfilled_count ?s"
    and chunks: "list_all outcome_chunk (enqueued (ctrl ?s))"
    by (simp_all add: run_inv_def)
  have 1: "length (enqueued (ctrl ?s)) \<le> 2"
    using len fulfilled_count_le [of ?s] by simp
  have 2: "\<forall>ch \<in> set (enqueued (ctrl ?s)).
      \<exists>data time. ch = event_chunk ''postgres'' data time \<or> ch = event_chunk ''elastic'' data time"
    using chunks by (simp add: list_all_iff outcome_chunk_def)
  have 3: "stream (ctrl ?s) = Closed \<longrightarrow>
      pg_task ?s = Fulfilled \<and> es_task ?s = Fulfilled \<and> length (enqueued (ctrl ?s)) = 2"
    using inv by (auto simp: run_inv_def fulfilled_count_def)
  have 4: "(\<exists>e. stream (ctrl ?s) = Errored e) =
      ((\<exists>e. pg_task ?s = Failed e) \<or> (\<exists>e. es_task ?s = Failed e))"
    using inv by (cases "stream (ctrl ?s)") (auto simp: run_inv_def has_failed_def)
  have 5: "stream (ctrl (step (Pg_settled (Inl e) t) (start unicode_lower query))) = Errored e \<and>
      es_task (step (Pg_settled (Inl e) t) (start unicode_lower query)) = Pending"
    by (simp add: step_pg_reject promise_all_pg_failed catch_block_def controller_error_def
        start_def)
  have 6: "stream (ctrl (step (Es_settled (Inl e) t) (start unicode_lower query))) = Errored e \<and>
      pg_task (step (Es_settled (Inl e) t) (start unicode_lower query)) = Pending"
    by (simp add: step_es_reject promise_all_es_failed catch_block_def controller_error_def
        start_def)
  from 1 2 3 4 5 6 show ?thesis
    by blast
qed

theorem stream_termination_witness:
  "stream (ctrl (run (start ascii_lower ''wombat'') [Pg_settled wombat_rows 4, Es_settled wombat_hits 9])) = Closed \<and>
   pg_task (run (start ascii_lower ''wombat'') [Pg_settled wombat_rows 4, Es_settled wombat_hits 9]) = Fulfilled \<and>
   es_task (run (start ascii_lower ''wombat'') [Pg_settled wombat_rows 4, Es_settled wombat_hits 9]) = Fulfilled \<and>
   length (enqueued (ctrl (run (start ascii_lower ''wombat'') [Pg_settled wombat_rows 4, Es_settled wombat_hits 9]))) = 2"
proof -
  have closed:
    "stream (ctrl (run (start ascii_lower ''wombat'') [Pg_settled wombat_rows 4, Es_settled wombat_hits 9])) = Closed"
    by code_simp
  from stream_termination [of ascii_lower "''wombat''" "[Pg_settled wombat_rows 4, Es_settled wombat_hits 9]"] closed
  show ?thesis
    by blast
qed

text \<open>
  C7 as stated (the channel never ends while an outcome is pending) fails: when the search
  engine fails first, the stream is terminated with the relational lookup still pending.
\<close>

theorem stream_errored_while_pending:
  "stream (ctrl (run (start ascii_lower ''wombat'') [Es_settled (Inl connection_refused) 3])) = Errored connection_refused \<and>
   pg_task (run (start ascii_lower ''wombat'') [Es_settled (Inl connection_refused) 3]) = Pending \<and>
   enqueued (ctrl (run (start ascii_lower ''wombat'') [Es_settled (Inl connection_refused) 3])) = []"
  by code_simp

section \<open>One backend fails\<close>

text \<open>
  C1 (as amended). When one backend fails and the other succeeds, the handler logs the
  error and errors the stream with it; no error event is written to the stream. The
  outcome of the other lookup is on the stream only if that lookup had completed before
  the failure; if it completes afterwards, \<^verbatim>\<open>enqueue\<close> throws and the outcome is lost.
\<close>

theorem failure_errors_the_stream:
  "enqueued (ctrl (run (start unicode_lower query) [Es_settled (Inl e) t1, Pg_settled (Inr rows) t2])) = [] \<and>
   stream (ctrl (run (start unicode_lower query) [Es_settled (Inl e) t1, Pg_settled (Inr rows) t2])) = Errored e \<and>
   console (run (start unicode_lower query) [Es_settled (Inl e) t1, Pg_settled (Inr rows) t2]) = [e] \<and>
   enqueued (ctrl (run (start unicode_lower query) [Pg_settled (Inl e) t1, Es_settled (Inr result) t2])) = [] \<and>
   stream (ctrl (run (start unicode_lower query) [Pg_settled (Inl e) t1, Es_settled (Inr result) t2])) = Errored e \<and>
   console (run (start unicode_lower query) [Pg_settled (Inl e) t1, Es_settled (Inr result) t2]) = [e] \<and>
   enqueued (ctrl (run (start unicode_lower query) [Pg_settled (Inr rows) t1, Es_settled (Inl e) t2])) =
     [event_chunk ''postgres'' (postgres_payload rows) t1] \<and>
   stream (ctrl (run (start unicode_lower query) [Pg_settled (Inr rows) t1, Es_settled (Inl e) t2])) = Errored e \<and>
   console (run (start unicode_lower query) [Pg_settled (Inr rows) t1, Es_settled (Inl e) t2]) = [e] \<and>
   enqueued (ctrl (run (start unicode_lower query) [Es_settled (Inr result) t1, Pg_settled (Inl e) t2])) =
     [event_chunk ''elastic'' (elastic_payload result) t1] \<and>
   stream (ctrl (run (start unicode_lower query) [Es_settled (Inr result) t1, Pg_settled (Inl e) t2])) = Errored e \<and>
   console (run (start unicode_lower query) [Es_settled (Inr result) t1, Pg_settled (Inl e) t2]) = [e]"
  unfolding es_fails_then_pg pg_fails_then_es pg_then_es_fails es_then_pg_fails
  by (simp add: start_fields)

text \<open>
  C1 as stated fails: the search engine refuses the connection, the relational store then
  answers with the matching row, and the stream ends errored without a single chunk; the
  relational lookup itself is rejected with the \<^verbatim>\<open>TypeError\<close> of \<^verbatim>\<open>enqueue\<close>.
\<close>

theorem relational_outcome_lost:
  "wombat_rows =
     Inr [[(''id'', Pg_int 1), (''external_id'', Pg_int 1),
           (''review'', Pg_text ''a rare wombat sighting''), (''sentiment'', Pg_int 0),
           (''total_count'', Pg_text ''1'')]] \<and>
   enqueued (ctrl (run (start ascii_lower ''wombat'')
      [Es_settled (Inl connection_refused) 3, Pg_settled wombat_rows 4])) = [] \<and>
   stream (ctrl (run (start ascii_lower ''wombat'')
      [Es_settled (Inl connection_refused) 3, Pg_settled wombat_rows 4])) = Errored connection_refused \<and>
   pg_task (run (start ascii_lower ''wombat'')
      [Es_settled (Inl connection_refused) 3, Pg_settled wombat_rows 4]) =
     Failed (TypeError ''Invalid state: Controller is already closed'')"
  by code_simp

section \<open>The race of the two lookups\<close>

lemma readable_while_pending:
  assumes "run_inv s" and "pg_task s = Pending \<or> es_task s = Pending"
    and "\<forall>e. pg_task s \<noteq> Failed e" and "\<forall>e. es_task s \<noteq> Failed e"
  shows "stream (ctrl s) = Readable"
  using assms by (cases "stream (ctrl s)") (auto simp: run_inv_def has_failed_def)

lemma errored_after_failure:
  assumes "run_inv s" and "pg_task s = Failed e \<or> es_task s = Failed e"
  shows "stream (ctrl s) \<noteq> Readable"
  using assms by (cases "stream (ctrl s)") (auto simp: run_inv_def has_failed_def)

lemma pg_forwarded:
  assumes "run_inv s" and "pg_task s = Pending" and "\<forall>e. es_task s \<noteq> Failed e"
  shows "enqueued (ctrl (step (Pg_settled (Inr rows) t) s)) =
      enqueued (ctrl s) @ [event_chunk ''postgres'' (postgres_payload rows) t]"
proof -
  have "stream (ctrl s) = Readable"
    using assms by (intro readable_while_pending) simp_all
  with assms(2) show ?thesis
    by (simp add: step_pg_ok promise_all_keeps)
qed

lemma es_forwarded:
  assumes "run_inv s" and "es_task s = Pending" and "\<forall>e. pg_task s \<noteq> Failed e"
  shows "enqueued (ctrl (step (Es_settled (Inr result) t) s)) =
      enqueued (ctrl s) @ [event_chunk ''elastic'' (elastic_payload result) t]"
proof -
  have "stream (ctrl s) = Readable"
    using assms by (intro readable_while_pending) simp_all
  with assms(2) show ?thesis
    by (simp add: step_es_ok promise_all_keeps)
qed

lemma pg_dropped:
  assumes "run_inv s" and "pg_task s = Pending" and "es_task s = Failed e"
  shows "enqueued (ctrl (step (Pg_settled (Inr rows) t) s)) = enqueued (ctrl s)"
proof -
  have "stream (ctrl s) \<noteq> Readable"
    using assms by (intro errored_after_failure [of s e]) simp_all
  with assms(2) show ?thesis
    by (simp add: step_pg_late promise_all_keeps)
qed

lemma es_dropped:
  assumes "run_inv s" and "es_task s = Pending" and "pg_task s = Failed e"
  shows "enqueued (ctrl (step (Es_settled (Inr result) t) s)) = enqueued (ctrl s)"
proof -
  have "stream (ctrl s) \<noteq> Readable"
    using assms by (intro errored_after_failure [of s e]) simp_all
  with assms(2) show ?thesis
    by (simp add: step_es_late promise_all_keeps)
qed

text \<open>
  C2 (as amended). For every non-empty query the handler has issued both backend
  requests, and both lookups are pending, before any answer is awaited. In every state a
  run can reach, the outcome of a pending lookup whose answer arrives is put on the
  stream at that very step, behind the chunks already there, provided the other lookup
  has not failed; if the other lookup has failed, the outcome is not put on the stream.
  So the outcome of the lookup that completes first is on the stream with the stream
  still readable and the other lookup still pending, the outcome of the second follows
  it, and only then is the stream closed: the chunks stand in the order of completion, in
  particular when the relational lookup completes first and the search engine is late.
\<close>

theorem lookups_race:
  "(query \<noteq> [] \<longrightarrow>
      body (GET unicode_lower (Some query)) = Event_stream (start unicode_lower query)) \<and>
   requests (start unicode_lower query) =
     [postgresSearch_request query, elasticSearch_request unicode_lower query] \<and>
   pg_task (start unicode_lower query) = Pending \<and>
   es_task (start unicode_lower query) = Pending \<and>
   enqueued (ctrl (start unicode_lower query)) = [] \<and>
   (pg_task (run (start unicode_lower query) evs) = Pending \<and>
    (\<forall>e. es_task (run (start unicode_lower query) evs) \<noteq> Failed e) \<longrightarrow>
      enqueued (ctrl (step (Pg_settled (Inr rows) t) (run (start unicode_lower query) evs))) =
        enqueued (ctrl (run (start unicode_lower query) evs)) @
          [event_chunk ''postgres'' (postgres_payload rows) t]) \<and>
   (es_task (run (start unicode_lower query) evs) = Pending \<and>
    (\<forall>e. pg_task (run (start unicode_lower query) evs) \<noteq> Failed e) \<longrightarrow>
      enqueued (ctrl (step (Es_settled (Inr result) t) (run (start unicode_lower query) evs))) =
        enqueued (ctrl (run (start unicode_lower query) evs)) @
          [event_chunk ''elastic'' (elastic_payload result) t]) \<and>
   (pg_task (run (start unicode_lower query) evs) = Pending \<and>
    (\<exists>e. es_task (run (start unicode_lower query) evs) = Failed e) \<longrightarrow>
      enqueued (ctrl (step (Pg_settled (Inr rows) t) (run (start unicode_lower query) evs))) =
        enqueued (ctrl (run (start unicode_lower query) evs))) \<and>
   (es_task (run (start unicode_lower query) evs) = Pending \<and>
    (\<exists>e. pg_task (run (start unicode_lower query) evs) = Failed e) \<longrightarrow>
      enqueued (ctrl (step (Es_settled (Inr result) t) (run (start unicode_lower query) evs))) =
        enqueued (ctrl (run (start unicode_lower query) evs))) \<and>
   enqueued (ctrl (step (Pg_settled (Inr rows) t1) (start unicode_lower query))) =
     [event_chunk ''postgres'' (postgres_payload rows) t1] \<and>
   stream (ctrl (step (Pg_settled (Inr rows) t1) (start unicode_lower query))) = Readable \<and>
   es_task (step (Pg_settled (Inr rows) t1) (start unicode_lower query)) = Pending \<and>
   enqueued (ctrl (run (start unicode_lower query) [Pg_settled (Inr rows) t1, Es_settled (Inr result) t2])) =
     [event_chunk ''postgres'' (postgres_payload rows) t1,
      event_chunk ''elastic'' (elastic_payload result) t2] \<and>
   stream (ctrl (run (start unicode_lower query) [Pg_settled (Inr rows) t1, Es_settled (Inr result) t2])) = Closed \<and>
   enqueued (ctrl (step (Es_settled (Inr result) t1) (start unicode_lower query))) =
     [event_chunk ''elastic'' (elastic_payload result) t1] \<and>
   stream (ctrl (step (Es_settled (Inr result) t1) (start unicode_lower query))) = Readable \<and>
   pg_task (step (Es_settled (Inr result) t1) (start unicode_lower query)) = Pending \<and>
   enqueued (ctrl (run (start unicode_lower query) [Es_settled (Inr result) t1, Pg_settled (Inr rows) t2])) =
     [event_chunk ''elastic'' (elastic_payload result) t1,
      event_chunk ''postgres'' (postgres_payload rows) t2] \<and>
   stream (ctrl (run (start unicode_lower query) [Es_settled (Inr result) t1, Pg_settled (Inr rows) t2])) = Closed"
proof -
  let ?s = "run (start unicode_lower query) evs"
  have inv: "run_inv ?s"
    by (rule run_inv_run [OF run_inv_start])
  have a: "query \<noteq> [] \<longrightarrow>
      body (GET unicode_lower (Some query)) = Event_stream (start unicode_lower query)"
    by (simp add: GET_def)
  have b: "pg_task ?s = Pending \<and> (\<forall>e. es_task ?s \<noteq> Failed e) \<longrightarrow>
      enqueued (ctrl (step (Pg_settled (Inr rows) t) ?s)) =
        enqueued (ctrl ?s) @ [event_chunk ''postgres'' (postgres_payload rows) t]"
    using pg_forwarded [OF inv] by blast
  have c: "es_task ?s = Pending \<and> (\<forall>e. pg_task ?s \<noteq> Failed e) \<longrightarrow>
      enqueued (ctrl (step (Es_settled (Inr result) t) ?s)) =
        enqueued (ctrl ?s) @ [event_chunk ''elastic'' (elastic_payload result) t]"
    using es_forwarded [OF inv] by blast
  have d: "pg_task ?s = Pending \<and> (\<exists>e. es_task ?s = Failed e) \<longrightarrow>
      enqueued (ctrl (step (Pg_settled (Inr rows) t) ?s)) = enqueued (ctrl ?s)"
    using pg_dropped [OF inv] by blast
  have e: "es_task ?s = Pending \<and> (\<exists>e. pg_task ?s = Failed e) \<longrightarrow>
      enqueued (ctrl (step (Es_settled (Inr result) t) ?s)) = enqueued (ctrl ?s)"
    using es_dropped [OF inv] by blast
  have f: "enqueued (ctrl (step (Pg_settled (Inr rows) t1) (start unicode_lower query))) =
      [event_chunk ''postgres'' (postgres_payload rows) t1] \<and>
    stream (ctrl (step (Pg_settled (Inr rows) t1) (start unicode_lower query))) = Readable \<and>
    es_task (step (Pg_settled (Inr rows) t1) (start unicode_lower query)) = Pending \<and>
    enqueued (ctrl (step (Es_settled (Inr result) t1) (start unicode_lower query))) =
      [event_chunk ''elastic'' (elastic_payload result) t1] \<and>
    stream (ctrl (step (Es_settled (Inr result) t1) (start unicode_lower query))) = Readable \<and>
    pg_task (step (Es_settled (Inr result) t1) (start unicode_lower query)) = Pending"
    unfolding pg_first es_first by (simp add: start_fields)
  have g: "enqueued (ctrl (run (start unicode_lower query) [Pg_settled (Inr rows) t1, Es_settled (Inr result) t2])) =
      [event_chunk ''postgres'' (postgres_payload rows) t1,
       event_chunk ''elastic'' (elastic_payload result) t2] \<and>
    stream (ctrl (run (start unicode_lower query) [Pg_settled (Inr rows) t1, Es_settled (Inr result) t2])) = Closed \<and>
    enqueued (ctrl (run (start unicode_lower query) [Es_settled (Inr result) t1, Pg_settled (Inr rows) t2])) =
      [event_chunk ''elastic'' (elastic_payload result) t1,
       event_chunk ''postgres'' (postgres_payload rows) t2] \<and>
    stream (ctrl (run (start unicode_lower query) [Es_settled (Inr result) t1, Pg_settled (Inr rows) t2])) = Closed"
    unfolding pg_then_es es_then_pg by (simp add: start_fields)
  have h: "requests (start unicode_lower query) =
      [postgresSearch_request query, elasticSearch_request unicode_lower query] \<and>
    pg_task (start unicode_lower query) = Pending \<and>
    es_task (start unicode_lower query) = Pending \<and>
    enqueued (ctrl (start unicode_lower query)) = []"
    by (simp add: start_fields)
  from a h b c d e f g show ?thesis
    by blast
qed

theorem lookups_race_witness:
  "body (GET ascii_lower (Some ''wombat'')) = Event_stream (start ascii_lower ''wombat'') \<and>
   pg_task (run (start ascii_lower ''wombat'') [Es_settled wombat_hits 9]) = Pending \<and>
   es_task (run (start ascii_lower ''wombat'') [Es_settled wombat_hits 9]) = Fulfilled \<and>
   enqueued (ctrl (step (Pg_settled (Inr []) 4) (run (start ascii_lower ''wombat'') [Es_settled wombat_hits 9]))) =
     enqueued (ctrl (run (start ascii_lower ''wombat'') [Es_settled wombat_hits 9])) @
       [event_chunk ''postgres'' (postgres_payload []) 4] \<and>
   pg_task (run (start ascii_lower ''wombat'') [Es_settled (Inl connection_refused) 9]) = Pending \<and>
   es_task (run (start ascii_lower ''wombat'') [Es_settled (Inl connection_refused) 9]) = Failed connection_refused \<and>
   enqueued (ctrl (step (Pg_settled (Inr []) 4)
      (run (start ascii_lower ''wombat'') [Es_settled (Inl connection_refused) 9]))) =
     enqueued (ctrl (run (start ascii_lower ''wombat'') [Es_settled (Inl connection_refused) 9])) \<and>
   es_task (run (start ascii_lower ''wombat'') [Pg_settled wombat_rows 4]) = Pending \<and>
   pg_task (run (start ascii_lower ''wombat'') [Pg_settled wombat_rows 4]) = Fulfilled \<and>
   enqueued (ctrl (step (Es_settled (Inr \<lparr>hits_total = Total_number 0, hits_hits = []\<rparr>) 9)
      (run (start ascii_lower ''wombat'') [Pg_settled wombat_rows 4]))) =
     enqueued (ctrl (run (start ascii_lower ''wombat'') [Pg_settled wombat_rows 4])) @
       [event_chunk ''elastic'' (elastic_payload \<lparr>hits_total = Total_number 0, hits_hits = []\<rparr>) 9] \<and>
   es_task (run (start ascii_lower ''wombat'') [Pg_settled (Inl connection_refused) 3]) = Pending \<and>
   pg_task (run (start ascii_lower ''wombat'') [Pg_settled (Inl connection_refused) 3]) = Failed connection_refused \<and>
   enqueued (ctrl (step (Es_settled (Inr \<lparr>hits_total = Total_number 0, hits_hits = []\<rparr>) 9)
      (run (start ascii_lower ''wombat'') [Pg_settled (Inl connection_refused) 3]))) =
     enqueued (ctrl (run (start ascii_lower ''wombat'') [Pg_settled (Inl connection_refused) 3]))"
proof -
  let ?none = "\<lparr>hits_total = Total_number 0, hits_hits = []\<rparr>"
  have ne: "''wombat'' \<noteq> []"
    by simp
  have p: "pg_task (run (start ascii_lower ''wombat'') [Es_settled wombat_hits 9]) = Pending \<and>
      es_task (run (start ascii_lower ''wombat'') [Es_settled wombat_hits 9]) = Fulfilled"
    by code_simp
  have q: "pg_task (run (start ascii_lower ''wombat'') [Es_settled (Inl connection_refused) 9]) = Pending \<and>
      es_task (run (start ascii_lower ''wombat'') [Es_settled (Inl connection_refused) 9]) =
        Failed connection_refused"
    by code_simp
  have p': "es_task (run (start ascii_lower ''wombat'') [Pg_settled wombat_rows 4]) = Pending \<and>
      pg_task (run (start ascii_lower ''wombat'') [Pg_settled wombat_rows 4]) = Fulfilled"
    by code_simp
  have q': "es_task (run (start ascii_lower ''wombat'') [Pg_settled (Inl connection_refused) 3]) = Pending \<and>
      pg_task (run (start ascii_lower ''wombat'') [Pg_settled (Inl connection_refused) 3]) =
        Failed connection_refused"
    by code_simp
  note ok = lookups_race [of "''wombat''" ascii_lower "[Es_settled wombat_hits 9]" "[]" 4]
  note ko = lookups_race [of "''wombat''" ascii_lower "[Es_settled (Inl connection_refused) 9]" "[]" 4]
  note ok' = lookups_race [of "''wombat''" ascii_lower "[Pg_settled wombat_rows 4]" "[]" 9 ?none]
  note ko' = lookups_race [of "''wombat''" ascii_lower "[Pg_settled (Inl connection_refused) 3]" "[]" 9 ?none]
  from ok ne have 1: "body (GET ascii_lower (Some ''wombat'')) = Event_stream (start ascii_lower ''wombat'')"
    by blast
  from ok p have 2: "enqueued (ctrl (step (Pg_settled (Inr []) 4)
        (run (start ascii_lower ''wombat'') [Es_settled wombat_hits 9]))) =
      enqueued (ctrl (run (start ascii_lower ''wombat'') [Es_settled wombat_hits 9])) @
        [event_chunk ''postgres'' (postgres_payload []) 4]"
    by (metis task.distinct(5))
  from ko q have 3: "enqueued (ctrl (step (Pg_settled (Inr []) 4)
        (run (start ascii_lower ''wombat'') [Es_settled (Inl connection_refused) 9]))) =
      enqueued (ctrl (run (start ascii_lower ''wombat'') [Es_settled (Inl connection_refused) 9]))"
    by blast
  from ok' p' have 4: "enqueued (ctrl (step (Es_settled (Inr ?none) 9)
        (run (start ascii_lower ''wombat'') [Pg_settled wombat_rows 4]))) =
      enqueued (ctrl (run (start ascii_lower ''wombat'') [Pg_settled wombat_rows 4])) @
        [event_chunk ''elastic'' (elastic_payload ?none) 9]"
    by (metis task.distinct(5))
  from ko' q' have 5: "enqueued (ctrl (step (Es_settled (Inr ?none) 9)
        (run (start ascii_lower ''wombat'') [Pg_settled (Inl connection_refused) 3]))) =
      enqueued (ctrl (run (start ascii_lower ''wombat'') [Pg_settled (Inl connection_refused) 3]))"
    by blast
  from 1 2 3 4 5 p q p' q' show ?thesis
    by blast
qed

text \<open>
  C2 as stated fails for an outcome that is ready after the other lookup has failed: the
  relational store refuses the connection, the search engine then answers with its hit,
  and that outcome never reaches the stream.
\<close>

theorem elastic_outcome_dropped:
  "wombat_hits = Inr \<lparr>hits_total = Total_object 1 ''eq'', hits_hits = [wombat_hit]\<rparr> \<and>
   enqueued (ctrl (run (start ascii_lower ''wombat'')
      [Pg_settled (Inl connection_refused) 3, Es_settled wombat_hits 4])) = [] \<and>
   stream (ctrl (run (start ascii_lower ''wombat'')
      [Pg_settled (Inl connection_refused) 3, Es_settled wombat_hits 4])) = Errored connection_refused \<and>
   es_task (run (start ascii_lower ''wombat'')
      [Pg_settled (Inl connection_refused) 3, Es_settled wombat_hits 4]) =
     Failed (TypeError ''Invalid state: Controller is already closed'')"
  by code_simp

section \<open>What the relational lookup reads from the store\<close>

lemma length_select_reviews:
  "length (select_reviews db pattern) = min 10 (length (matching_rows db pattern))"
  by (simp add: select_reviews_def Let_def min.commute)

lemma total_count_of_result_row:
  "map_of (result_row n r) ''total_count'' = Some (Pg_text (show_nat n))"
  by (simp add: result_row_def)

lemma postgres_total_select:
  "postgres_total (select_reviews db pattern) = Some (int (length (matching_rows db pattern)))"
proof (cases "matching_rows db pattern")
  case Nil
  then show ?thesis
    by (simp add: postgres_total_def select_reviews_def)
next
  case (Cons r rs)
  then have "hd (select_reviews db pattern) = result_row (length (matching_rows db pattern)) r"
    and "select_reviews db pattern \<noteq> []"
    by (simp_all add: select_reviews_def Let_def)
  then show ?thesis
    by (simp add: postgres_total_def total_count_of_result_row parseInt_value_def
        parseInt_show_nat)
qed

lemma length_postgres_data: "length (postgres_data rows) = length rows"
  by (simp add: postgres_data_def)

lemma rest_of_row_no_total_count: "''total_count'' \<notin> fst ` set (rest_of_row r)"
  by (auto simp: rest_of_row_def)


lemma rest_of_result_row:
  "rest_of_row (result_row n r) =
     [(''id'', Pg_int (col_id r)),
      (''external_id'', (case col_external_id r of None \<Rightarrow> Pg_null | Some e \<Rightarrow> Pg_int e)),
      (''review'', Pg_text (col_review r)),
      (''sentiment'', Pg_int (col_sentiment r))]"
  by (simp add: rest_of_row_def result_row_def)

lemma pg_execute_select:
  "CHR 0x00 \<notin> set pattern \<Longrightarrow>
   pg_execute db select_sql [Pg_text pattern] = (Inr (select_reviews db pattern), db)"
  by (simp add: pg_execute_def)

lemma pg_execute_select_refused:
  "CHR 0x00 \<in> set pattern \<Longrightarrow>
   pg_execute db select_sql [Pg_text pattern] =
     (Inl (Rejected ''invalid byte sequence for encoding UTF8: 0x00''), db)"
  by (simp add: pg_execute_def)

lemma pg_execute_select_store: "snd (pg_execute db select_sql params) = db"
  by (simp add: pg_execute_def split: list.splits pg_value.splits)

lemma es_size_body: "es_size (elasticSearch_body unicode_lower query) = 10"
  by (simp add: elasticSearch_body_def)

lemma length_elastic_data_engine:
  "length (elastic_data (engine_response fmt matched req)) = min (length matched) (es_size req)"
  by (simp add: elastic_data_def engine_response_def)

lemma elastic_total_engine:
  "elastic_total (engine_response fmt matched req) =
     (case fmt of As_number \<Rightarrow> int (length matched) | As_object \<Rightarrow> int (min (length matched) 10000))"
  by (simp add: elastic_total_def engine_response_def engine_total_def min_def
      split: total_format.splits)

section \<open>The page cap and the total\<close>

text \<open>
  C3. When more than ten rows of the store match, the relational outcome carries exactly
  ten records and its total is the number of all matching rows; the handler sends the
  store one statement only, so the total comes from the scan that fetched the page. The
  search engine is asked for ten hits and nothing else about the total: when more than
  ten documents match, the outcome carries ten records, and its total is the number of
  matching documents exactly when the engine reports a bare number or no more than 10000
  documents match; otherwise the total is 10000.
\<close>

theorem page_cap_true_total:
  "(10 < length (matching_rows db (''%'' @ query @ ''%'')) \<longrightarrow>
      length (postgres_data (select_reviews db (''%'' @ query @ ''%''))) = 10 \<and>
      postgres_total (select_reviews db (''%'' @ query @ ''%'')) =
        Some (int (length (matching_rows db (''%'' @ query @ ''%'')))) \<and>
      postgres_payload (select_reviews db (''%'' @ query @ ''%'')) =
        JObj [(''data'', JArr (map row_json (postgres_data (select_reviews db (''%'' @ query @ ''%''))))),
              (''total'', JNum (int (length (matching_rows db (''%'' @ query @ ''%'')))))]) \<and>
   requests (start unicode_lower query) =
     [Pg_query select_sql [Pg_text (''%'' @ query @ ''%'')],
      Es_search (elasticSearch_body unicode_lower query)] \<and>
   es_size (elasticSearch_body unicode_lower query) = 10 \<and>
   (CHR 0x00 \<notin> set query \<longrightarrow>
      pg_execute db select_sql [Pg_text (''%'' @ query @ ''%'')] =
        (Inr (select_reviews db (''%'' @ query @ ''%'')), db)) \<and>
   (10 < length matched \<longrightarrow>
      length (elastic_data (engine_response fmt matched (elasticSearch_body unicode_lower query))) = 10 \<and>
      elastic_total (engine_response fmt matched (elasticSearch_body unicode_lower query)) =
        (case fmt of
           As_number \<Rightarrow> int (length matched)
         | As_object \<Rightarrow> int (min (length matched) 10000)) \<and>
      (elastic_total (engine_response fmt matched (elasticSearch_body unicode_lower query)) =
         int (length matched)) =
        (fmt = As_number \<or> length matched \<le> 10000) \<and>
      elastic_payload (engine_response fmt matched (elasticSearch_body unicode_lower query)) =
        JObj [(''data'', JArr (map hit_source (take 10 matched))),
              (''total'', JNum (case fmt of
                 As_number \<Rightarrow> int (length matched)
               | As_object \<Rightarrow> int (min (length matched) 10000)))])"
proof -
  let ?p = "''%'' @ query @ ''%''"
  let ?r = "engine_response fmt matched (elasticSearch_body unicode_lower query)"
  have pg: "10 < length (matching_rows db ?p) \<longrightarrow>
      length (postgres_data (select_reviews db ?p)) = 10 \<and>
      postgres_total (select_reviews db ?p) = Some (int (length (matching_rows db ?p))) \<and>
      postgres_payload (select_reviews db ?p) =
        JObj [(''data'', JArr (map row_json (postgres_data (select_reviews db ?p)))),
              (''total'', JNum (int (length (matching_rows db ?p))))]"
    by (simp add: length_postgres_data length_select_reviews postgres_total_select
        postgres_payload_def number_json_def)
  have reqs: "requests (start unicode_lower query) =
      [Pg_query select_sql [Pg_text ?p], Es_search (elasticSearch_body unicode_lower query)]"
    by (simp add: start_def postgresSearch_request_def elasticSearch_request_def)
  have ex: "CHR 0x00 \<notin> set query \<longrightarrow>
      pg_execute db select_sql [Pg_text ?p] = (Inr (select_reviews db ?p), db)"
    by (simp add: pg_execute_select)
  have len: "10 < length matched \<longrightarrow> length (elastic_data ?r) = 10"
    by (simp add: length_elastic_data_engine es_size_body)
  have tot: "elastic_total ?r =
      (case fmt of As_number \<Rightarrow> int (length matched) | As_object \<Rightarrow> int (min (length matched) 10000))"
    by (rule elastic_total_engine)
  have exact: "(elastic_total ?r = int (length matched)) = (fmt = As_number \<or> length matched \<le> 10000)"
    by (cases fmt) (simp_all add: elastic_total_engine min_def)
  have pay: "elastic_payload ?r =
      JObj [(''data'', JArr (map hit_source (take 10 matched))),
            (''total'', JNum (case fmt of
               As_number \<Rightarrow> int (length matched)
             | As_object \<Rightarrow> int (min (length matched) 10000)))]"
    unfolding elastic_payload_def tot
    by (simp add: elastic_data_def engine_response_def es_size_body)
  from pg reqs es_size_body [of unicode_lower query] ex len tot exact pay show ?thesis
    by blast
qed

theorem page_cap_true_total_witness:
  "10 < length (matching_rows many_db ''%wombat%'') \<and>
   length (matching_rows many_db ''%wombat%'') = 11 \<and>
   length (postgres_data (select_reviews many_db ''%wombat%'')) = 10 \<and>
   postgres_total (select_reviews many_db ''%wombat%'') = Some 11 \<and>
   pg_execute many_db select_sql [Pg_text ''%wombat%''] =
     (Inr (select_reviews many_db ''%wombat%''), many_db) \<and>
   10 < length (replicate 11 wombat_hit) \<and>
   length (elastic_data
     (engine_response As_object (replicate 11 wombat_hit) (elasticSearch_body ascii_lower ''wombat''))) = 10 \<and>
   elastic_total
     (engine_response As_object (replicate 11 wombat_hit) (elasticSearch_body ascii_lower ''wombat'')) = 11"
proof -
  have n: "length (matching_rows many_db ''%wombat%'') = 11"
    by code_simp
  have z: "CHR 0x00 \<notin> set ''wombat''"
    by simp
  note r = page_cap_true_total [of many_db "''wombat''" ascii_lower "replicate 11 wombat_hit" As_object]
  from r n have a: "length (postgres_data (select_reviews many_db ''%wombat%'')) = 10 \<and>
      postgres_total (select_reviews many_db ''%wombat%'') = Some 11"
    by simp
  from r z have b: "pg_execute many_db select_sql [Pg_text ''%wombat%''] =
      (Inr (select_reviews many_db ''%wombat%''), many_db)"
    by simp
  from r have c: "length (elastic_data
      (engine_response As_object (replicate 11 wombat_hit) (elasticSearch_body ascii_lower ''wombat''))) = 10 \<and>
    elastic_total
      (engine_response As_object (replicate 11 wombat_hit) (elasticSearch_body ascii_lower ''wombat'')) = 11"
    by simp
  from n a b c show ?thesis
    by simp
qed

text \<open>
  With 10001 matching documents the engine answers ten hits and the total
  \<^verbatim>\<open>{value: 10000, relation: "gte"}\<close>; the route drops the relation and sends 10000
  as the total.
\<close>

theorem indexed_total_capped:
  "length (replicate 10001 wombat_hit) = 10001 \<and>
   hits_total (engine_response As_object (replicate 10001 wombat_hit)
     (elasticSearch_body ascii_lower ''wombat'')) = Total_object 10000 ''gte'' \<and>
   length (elastic_data (engine_response As_object (replicate 10001 wombat_hit)
     (elasticSearch_body ascii_lower ''wombat''))) = 10 \<and>
   elastic_total (engine_response As_object (replicate 10001 wombat_hit)
     (elasticSearch_body ascii_lower ''wombat'')) = 10000 \<and>
   elastic_payload (engine_response As_object (replicate 10001 wombat_hit)
     (elasticSearch_body ascii_lower ''wombat'')) =
     JObj [(''data'', JArr (replicate 10 (hit_source wombat_hit))), (''total'', JNum 10000)]"
  by (simp add: engine_response_def engine_total_def elastic_total_def elastic_data_def
      elastic_payload_def es_size_body)

section \<open>Consistency of an outcome\<close>



section \<open>Searching only reads\<close>

lemma dispatched_GET:
  "dispatched (GET unicode_lower q) =
     (case q of None \<Rightarrow> [] | Some query \<Rightarrow>
        if query = [] then []
        else [postgresSearch_request query, elasticSearch_request unicode_lower query])"
  by (simp add: GET_def dispatched_def bad_request_def start_def split: option.splits)

lemma backend_postgresSearch: "snd (backend w (postgresSearch_request query)) = w"
proof (cases "pg_execute (pg w) select_sql [Pg_text (''%'' @ query @ ''%'')]")
  case (Pair a db)
  with pg_execute_select_store [of "pg w" "[Pg_text (''%'' @ query @ ''%'')]"] have "db = pg w"
    by simp
  with Pair show ?thesis
    by (simp add: backend_def postgresSearch_request_def)
qed

lemma backend_elasticSearch: "snd (backend w (elasticSearch_request unicode_lower query)) = w"
  by (simp add: backend_def elasticSearch_request_def)

lemma answers_route:
  "snd (answers w [postgresSearch_request query, elasticSearch_request unicode_lower query]) = w"
proof -
  obtain a where a: "backend w (postgresSearch_request query) = (a, w)"
    using backend_postgresSearch [of w query]
    by (cases "backend w (postgresSearch_request query)") simp
  obtain b where b: "backend w (elasticSearch_request unicode_lower query) = (b, w)"
    using backend_elasticSearch [of w unicode_lower query]
    by (cases "backend w (elasticSearch_request unicode_lower query)") simp
  show ?thesis
    by (simp add: a b)
qed

lemma answers_dispatched: "snd (answers w (dispatched (GET unicode_lower q))) = w"
proof (cases q)
  case None
  then show ?thesis
    by (simp add: dispatched_GET)
next
  case (Some query)
  have "snd (answers w []) = w"
    by simp
  with Some show ?thesis
    using answers_route [of w query unicode_lower] by (simp add: dispatched_GET del: answers.simps)
qed

lemma snd_serve: "snd (serve unicode_lower w q es_first ts) = w"
proof (cases "body (GET unicode_lower q)")
  case (Json_body j)
  then show ?thesis
    by (simp add: serve_def Let_def)
next
  case (Event_stream s)
  then have "requests s = dispatched (GET unicode_lower q)"
    by (simp add: dispatched_def)
  then have "snd (answers w (requests s)) = w"
    by (simp add: answers_dispatched)
  with Event_stream show ?thesis
    by (cases "answers w (requests s)") (simp add: serve_def Let_def)
qed

lemma insert_changes_the_store:
  "fst (pg_execute wombat_db (insertBatch_sql 1) [Pg_int 2, Pg_text ''a koala'', Pg_int 1]) = Inr [] \<and>
   reviews (snd (pg_execute wombat_db (insertBatch_sql 1) [Pg_int 2, Pg_text ''a koala'', Pg_int 1])) =
     reviews wombat_db @
       [\<lparr>col_id = 2, col_external_id = Some 2, col_review = ''a koala'', col_sentiment = 1\<rparr>] \<and>
   reviews_id_seq (snd (pg_execute wombat_db (insertBatch_sql 1)
     [Pg_int 2, Pg_text ''a koala'', Pg_int 1])) = 2"
  by code_simp

text \<open>
  C9. Serving a request, accepted or rejected, in either order of completion, leaves both
  stores as they were: the only statement sent to the relational store is the
  \<^verbatim>\<open>SELECT\<close>, which changes nothing whatever its parameters (unlike the
  \<^verbatim>\<open>INSERT\<close> of the seeding script above), and the search engine is only searched.
  The same query served again makes each lookup report the same total.
\<close>

theorem search_is_read_only:
  "snd (serve unicode_lower w q es_first ts) = w \<and>
   dispatched (GET unicode_lower q) =
     (case q of None \<Rightarrow> [] | Some query \<Rightarrow>
        if query = [] then []
        else [Pg_query select_sql [Pg_text (''%'' @ query @ ''%'')],
              elasticSearch_request unicode_lower query]) \<and>
   snd (pg_execute db select_sql params) = db \<and>
   map answer_total
     (fst (answers (snd (serve unicode_lower w q es_first ts)) (dispatched (GET unicode_lower q)))) =
   map answer_total (fst (answers w (dispatched (GET unicode_lower q)))) \<and>
   serve unicode_lower (snd (serve unicode_lower w q es_first ts)) q es_first' ts' =
     serve unicode_lower w q es_first' ts'"
proof -
  have 3: "dispatched (GET unicode_lower q) =
     (case q of None \<Rightarrow> [] | Some query \<Rightarrow>
        if query = [] then []
        else [Pg_query select_sql [Pg_text (''%'' @ query @ ''%'')],
              elasticSearch_request unicode_lower query])"
    by (cases q) (simp_all add: dispatched_GET postgresSearch_request_def)
  from 3 show ?thesis
    by (simp add: snd_serve pg_execute_select_store)
qed

theorem search_is_read_only_witness:
  "snd (serve ascii_lower wombat_world (Some ''wombat'') False [4, 9]) = wombat_world \<and>
   map answer_total
     (fst (answers (snd (serve ascii_lower wombat_world (Some ''wombat'') False [4, 9]))
        (dispatched (GET ascii_lower (Some ''wombat''))))) = [Some 1, Some 1]"
proof -
  have t: "map answer_total
      (fst (answers wombat_world (dispatched (GET ascii_lower (Some ''wombat''))))) =
      [Some 1, Some 1]"
    by code_simp
  note r = search_is_read_only [of ascii_lower wombat_world "Some ''wombat''" False "[4, 9]" wombat_db "[]" True "[]"]
  from r have a: "snd (serve ascii_lower wombat_world (Some ''wombat'') False [4, 9]) = wombat_world"
    by blast
  from r have b: "map answer_total
     (fst (answers (snd (serve ascii_lower wombat_world (Some ''wombat'') False [4, 9]))
        (dispatched (GET ascii_lower (Some ''wombat''))))) =
     map answer_total (fst (answers wombat_world (dispatched (GET ascii_lower (Some ''wombat'')))))"
    by blast
  from a b [unfolded t] show ?thesis
    by blast
qed

section \<open>What a pattern built from the query matches\<close>

lemma like_match_only_percent: "like_match ''%'' t"
proof (induction t rule: length_induct)
  case (1 t)
  show ?case
  proof (cases t)
    case Nil
    then show ?thesis
      by simp
  next
    case (Cons c cs)
    have "length (dropWhile is_continuation cs) < length t"
      using Cons length_dropWhile_le [of is_continuation cs] by simp
    with 1 have "like_match ''%'' (dropWhile is_continuation cs)"
      by blast
    with Cons show ?thesis
      by simp
  qed
qed

lemma like_match_plain_char:
  assumes "p \<noteq> CHR ''%''" "p \<noteq> CHR ''_''" "p \<noteq> CHR 0x5C"
  shows "like_match (p # ps) t = (\<exists>cs. t = p # cs \<and> like_match ps cs)"
  using assms by (cases t) auto

lemma like_match_plain:
  "like_plain q \<Longrightarrow> like_match (q @ r) t = (\<exists>s. t = q @ s \<and> like_match r s)"
proof (induction q arbitrary: t)
  case Nil
  show ?case by simp
next
  case (Cons p ps)
  then have p: "p \<noteq> CHR ''%''" "p \<noteq> CHR ''_''" "p \<noteq> CHR 0x5C" and ps: "like_plain ps"
    by (simp_all add: like_plain_def)
  have "like_match ((p # ps) @ r) t = (\<exists>cs. t = p # cs \<and> like_match (ps @ r) cs)"
    using like_match_plain_char [OF p] by simp
  also have "\<dots> = (\<exists>cs. t = p # cs \<and> (\<exists>s. cs = ps @ s \<and> like_match r s))"
    by (simp only: Cons.IH [OF ps])
  also have "\<dots> = (\<exists>s. t = (p # ps) @ s \<and> like_match r s)"
    by auto
  finally show ?case .
qed

lemma like_match_prefix: "like_plain q \<Longrightarrow> like_match (q @ ''%'') t = prefix q t"
  by (simp add: like_match_plain like_match_only_percent prefix_def)

text \<open>
  The percent sign skips whole characters, so what follows it is matched at the start of
  a character only. A query that starts a character occurs nowhere else.
\<close>

lemma sublist_skip_continuation:
  assumes "starts_character q"
  shows "sublist q (dropWhile is_continuation cs) = sublist q cs"
proof (induction cs)
  case Nil
  show ?case by simp
next
  case (Cons d ds)
  show ?case
  proof (cases "is_continuation d")
    case False
    then show ?thesis
      by simp
  next
    case True
    from assms obtain x xs where q: "q = x # xs" and x: "\<not> is_continuation x"
      by (auto simp: starts_character_def split: list.splits)
    from True x have "x \<noteq> d"
      by auto
    then have "\<not> prefix q (d # ds)"
      by (simp add: q)
    then have "sublist q (d # ds) = sublist q ds"
      by (simp add: sublist_Cons_right)
    with True Cons show ?thesis
      by simp
  qed
qed

lemma like_match_contains:
  assumes "like_plain q" and "starts_character q"
  shows "like_match (''%'' @ q @ ''%'') t = sublist q t"
proof (induction t rule: length_induct)
  case (1 t)
  from assms(2) have ne: "q \<noteq> []"
    by (auto simp: starts_character_def)
  show ?case
  proof (cases t)
    case Nil
    have "like_match (''%'' @ q @ ''%'') [] = like_match (q @ ''%'') []"
      by simp
    also have "\<dots> = prefix q []"
      by (rule like_match_prefix [OF assms(1)])
    finally show ?thesis
      using Nil ne by simp
  next
    case (Cons c cs)
    have "length (dropWhile is_continuation cs) < length t"
      using Cons length_dropWhile_le [of is_continuation cs] by simp
    with 1 have ih: "like_match (''%'' @ q @ ''%'') (dropWhile is_continuation cs) =
        sublist q (dropWhile is_continuation cs)"
      by blast
    have "like_match (''%'' @ q @ ''%'') (c # cs) =
        (like_match (q @ ''%'') (c # cs) \<or>
         like_match (''%'' @ q @ ''%'') (dropWhile is_continuation cs))"
      by simp
    also have "\<dots> = (prefix q (c # cs) \<or> sublist q cs)"
      by (simp only: like_match_prefix [OF assms(1)] ih sublist_skip_continuation [OF assms(2)])
    also have "\<dots> = sublist q (c # cs)"
      by (simp add: sublist_Cons_right)
    finally show ?thesis
      using Cons by simp
  qed
qed

lemma ilike_contains:
  assumes "lower (''%'' @ q @ ''%'') = ''%'' @ lower q @ ''%''"
    and "like_plain (lower q)" and "starts_character (lower q)"
  shows "ilike lower txt (''%'' @ q @ ''%'') = sublist (lower q) (lower txt)"
  unfolding ilike_def assms(1) by (rule like_match_contains [OF assms(2) assms(3)])

text \<open>The case folding of the C locale keeps the pattern characters and the character starts.\<close>

lemma toLowerCase_char_plain:
  "(toLowerCase_char c \<noteq> CHR ''%'' \<and> toLowerCase_char c \<noteq> CHR ''_'' \<and> toLowerCase_char c \<noteq> CHR 0x5C) =
   (c \<noteq> CHR ''%'' \<and> c \<noteq> CHR ''_'' \<and> c \<noteq> CHR 0x5C)"
proof (cases "65 \<le> (of_char c :: nat) \<and> (of_char c :: nat) \<le> 90")
  case False
  then have "toLowerCase_char c = c"
    by (auto simp: toLowerCase_char_def Let_def)
  then show ?thesis
    by simp
next
  case True
  then have low: "(of_char (toLowerCase_char c) :: nat) = of_char c + 32"
    by (simp add: toLowerCase_char_def Let_def)
  have "toLowerCase_char c \<noteq> CHR ''%'' \<and> toLowerCase_char c \<noteq> CHR ''_'' \<and> toLowerCase_char c \<noteq> CHR 0x5C"
    using low True by auto
  moreover have "c \<noteq> CHR ''%'' \<and> c \<noteq> CHR ''_'' \<and> c \<noteq> CHR 0x5C"
    using True by auto
  ultimately show ?thesis
    by simp
qed

lemma toLowerCase_char_continuation: "is_continuation (toLowerCase_char c) = is_continuation c"
proof (cases "65 \<le> (of_char c :: nat) \<and> (of_char c :: nat) \<le> 90")
  case False
  then have "toLowerCase_char c = c"
    by (auto simp: toLowerCase_char_def Let_def)
  then show ?thesis
    by simp
next
  case True
  then have "(of_char (toLowerCase_char c) :: nat) = of_char c + 32"
    by (simp add: toLowerCase_char_def Let_def)
  with True show ?thesis
    by (simp add: is_continuation_def Let_def)
qed

lemma like_plain_ascii_lower: "like_plain (ascii_lower q) = like_plain q"
  by (induction q) (simp_all add: like_plain_def ascii_lower_def toLowerCase_char_plain)

lemma starts_character_ascii_lower: "starts_character (ascii_lower q) = starts_character q"
  by (cases q) (simp_all add: starts_character_def ascii_lower_def toLowerCase_char_continuation)

lemma ascii_lower_pattern:
  "ascii_lower (''%'' @ q @ ''%'') = ''%'' @ ascii_lower q @ ''%''"
  by (simp add: ascii_lower_def toLowerCase_char_def)

lemma ilike_ascii_contains:
  assumes "like_plain q" and "starts_character q"
  shows "ilike ascii_lower txt (''%'' @ q @ ''%'') = sublist (ascii_lower q) (ascii_lower txt)"
proof (rule ilike_contains)
  show "ascii_lower (''%'' @ q @ ''%'') = ''%'' @ ascii_lower q @ ''%''"
    by (rule ascii_lower_pattern)
  show "like_plain (ascii_lower q)"
    using assms(1) by (simp add: like_plain_ascii_lower)
  show "starts_character (ascii_lower q)"
    using assms(2) by (simp add: starts_character_ascii_lower)
qed

section \<open>The query as a bound value\<close>

text \<open>
  C5 (as amended). The text of the statement sent to the relational store is the same
  for every query; the query reaches the store only inside the bound parameter
  \<^verbatim>\<open>%query%\<close>, and reaches the search engine inside the expression
  \<^verbatim>\<open>*query*\<close> (lower-cased by the runtime) of a \<^verbatim>\<open>query_string\<close> query. A
  query with a zero byte is refused by the store, and the lookup fails. Any other query
  selects the rows \<^verbatim>\<open>ILIKE\<close> matches: when the case folding of the database leaves
  the two percent signs around the folded query, and the folded query starts a character
  and has no percent sign, underscore or backslash, these are exactly the rows whose
  folded review contains the folded query. In a database of the C locale this is so for
  every query that starts a character and has none of the three pattern characters, such
  as \<^verbatim>\<open>' OR '1'='1\<close>.
\<close>

theorem bound_parameter_literal_match:
  "postgresSearch_request query = Pg_query select_sql [Pg_text (''%'' @ query @ ''%'')] \<and>
   elasticSearch_request unicode_lower query = Es_search (elasticSearch_body unicode_lower query) \<and>
   query_string_query (elasticSearch_body unicode_lower query) =
     ''*'' @ toLowerCase unicode_lower query @ ''*'' \<and>
   (CHR 0x00 \<in> set query \<longrightarrow>
      pg_execute db select_sql [Pg_text (''%'' @ query @ ''%'')] =
        (Inl (Rejected ''invalid byte sequence for encoding UTF8: 0x00''), db)) \<and>
   (CHR 0x00 \<notin> set query \<longrightarrow>
      pg_execute db select_sql [Pg_text (''%'' @ query @ ''%'')] =
        (Inr (select_reviews db (''%'' @ query @ ''%'')), db)) \<and>
   postgres_data (select_reviews db (''%'' @ query @ ''%'')) =
     map (\<lambda>r. [(''id'', Pg_int (col_id r)),
                (''external_id'', (case col_external_id r of None \<Rightarrow> Pg_null | Some e \<Rightarrow> Pg_int e)),
                (''review'', Pg_text (col_review r)),
                (''sentiment'', Pg_int (col_sentiment r))])
       (take 10 (matching_rows db (''%'' @ query @ ''%''))) \<and>
   (pg_lower db (''%'' @ query @ ''%'') = ''%'' @ pg_lower db query @ ''%'' \<and>
    like_plain (pg_lower db query) \<and> starts_character (pg_lower db query) \<longrightarrow>
      matching_rows db (''%'' @ query @ ''%'') =
        filter (\<lambda>r. sublist (pg_lower db query) (pg_lower db (col_review r))) (reviews db)) \<and>
   (pg_lower db = ascii_lower \<and> like_plain query \<and> starts_character query \<longrightarrow>
      matching_rows db (''%'' @ query @ ''%'') =
        filter (\<lambda>r. sublist (ascii_lower query) (ascii_lower (col_review r))) (reviews db))"
proof -
  let ?p = "''%'' @ query @ ''%''"
  have 1: "postgresSearch_request query = Pg_query select_sql [Pg_text ?p]"
    by (simp add: postgresSearch_request_def)
  have 2: "elasticSearch_request unicode_lower query = Es_search (elasticSearch_body unicode_lower query)"
    by (simp add: elasticSearch_request_def)
  have 3: "query_string_query (elasticSearch_body unicode_lower query) =
      ''*'' @ toLowerCase unicode_lower query @ ''*''"
    by (simp add: elasticSearch_body_def)
  have 4: "CHR 0x00 \<in> set query \<longrightarrow>
      pg_execute db select_sql [Pg_text ?p] =
        (Inl (Rejected ''invalid byte sequence for encoding UTF8: 0x00''), db)"
    by (simp add: pg_execute_select_refused)
  have 5: "CHR 0x00 \<notin> set query \<longrightarrow>
      pg_execute db select_sql [Pg_text ?p] = (Inr (select_reviews db ?p), db)"
    by (simp add: pg_execute_select)
  have 6: "postgres_data (select_reviews db ?p) =
     map (\<lambda>r. [(''id'', Pg_int (col_id r)),
                (''external_id'', (case col_external_id r of None \<Rightarrow> Pg_null | Some e \<Rightarrow> Pg_int e)),
                (''review'', Pg_text (col_review r)),
                (''sentiment'', Pg_int (col_sentiment r))])
       (take 10 (matching_rows db ?p))"
    by (simp add: postgres_data_def select_reviews_def Let_def rest_of_result_row comp_def)
  have 7: "pg_lower db ?p = ''%'' @ pg_lower db query @ ''%'' \<and>
      like_plain (pg_lower db query) \<and> starts_character (pg_lower db query) \<longrightarrow>
      matching_rows db ?p =
        filter (\<lambda>r. sublist (pg_lower db query) (pg_lower db (col_review r))) (reviews db)"
  proof
    assume a: "pg_lower db ?p = ''%'' @ pg_lower db query @ ''%'' \<and>
      like_plain (pg_lower db query) \<and> starts_character (pg_lower db query)"
    then have "\<And>txt. ilike (pg_lower db) txt ?p = sublist (pg_lower db query) (pg_lower db txt)"
      using ilike_contains [of "pg_lower db" query] by blast
    then show "matching_rows db ?p =
        filter (\<lambda>r. sublist (pg_lower db query) (pg_lower db (col_review r))) (reviews db)"
      unfolding matching_rows_def by (simp only:)
  qed
  have 8: "pg_lower db = ascii_lower \<and> like_plain query \<and> starts_character query \<longrightarrow>
      matching_rows db ?p =
        filter (\<lambda>r. sublist (ascii_lower query) (ascii_lower (col_review r))) (reviews db)"
  proof
    assume a: "pg_lower db = ascii_lower \<and> like_plain query \<and> starts_character query"
    then have "\<And>txt. ilike ascii_lower txt ?p = sublist (ascii_lower query) (ascii_lower txt)"
      using ilike_ascii_contains [of query] by blast
    with a show "matching_rows db ?p =
        filter (\<lambda>r. sublist (ascii_lower query) (ascii_lower (col_review r))) (reviews db)"
      unfolding matching_rows_def by (simp only:)
  qed
  from 1 2 3 4 5 6 7 8 show ?thesis
    by blast
qed

theorem bound_parameter_literal_match_witness:
  "pg_lower quoted_db = ascii_lower \<and>
   like_plain ''' OR '1'='1'' \<and> starts_character ''' OR '1'='1'' \<and>
   CHR 0x00 \<notin> set ''' OR '1'='1'' \<and>
   pg_execute quoted_db select_sql [Pg_text (''%'' @ ''' OR '1'='1'' @ ''%'')] =
     (Inr (select_reviews quoted_db (''%'' @ ''' OR '1'='1'' @ ''%'')), quoted_db) \<and>
   matching_rows quoted_db (''%'' @ ''' OR '1'='1'' @ ''%'') =
     [\<lparr>col_id = 2, col_external_id = Some 2, col_review = ''he typed x' or '1'='1 again'',
       col_sentiment = 1\<rparr>] \<and>
   CHR 0x00 \<in> set [CHR ''a'', CHR 0x00] \<and>
   pg_execute quoted_db select_sql [Pg_text (''%'' @ [CHR ''a'', CHR 0x00] @ ''%'')] =
     (Inl (Rejected ''invalid byte sequence for encoding UTF8: 0x00''), quoted_db) \<and>
   pg_lower cafe_db (''%'' @ (''CAF'' @ [CHR 0xC3, CHR 0x89]) @ ''%'') =
     ''%'' @ pg_lower cafe_db (''CAF'' @ [CHR 0xC3, CHR 0x89]) @ ''%'' \<and>
   pg_lower cafe_db (''CAF'' @ [CHR 0xC3, CHR 0x89]) = ''caf'' @ [CHR 0xC3, CHR 0xA9] \<and>
   like_plain (pg_lower cafe_db (''CAF'' @ [CHR 0xC3, CHR 0x89])) \<and>
   starts_character (pg_lower cafe_db (''CAF'' @ [CHR 0xC3, CHR 0x89])) \<and>
   matching_rows cafe_db (''%'' @ (''CAF'' @ [CHR 0xC3, CHR 0x89]) @ ''%'') =
     [\<lparr>col_id = 1, col_external_id = Some 1,
       col_review = ''un caf'' @ [CHR 0xC3, CHR 0xA9] @ '' noir'', col_sentiment = 1\<rparr>]"
proof -
  let ?cafe = "''CAF'' @ [CHR 0xC3, CHR 0x89]"
  have l: "pg_lower quoted_db = ascii_lower"
    by (simp add: quoted_db_def)
  have p: "like_plain ''' OR '1'='1''"
    by code_simp
  have s: "starts_character ''' OR '1'='1''"
    by code_simp
  have z: "CHR 0x00 \<notin> set ''' OR '1'='1''"
    by simp
  have n: "CHR 0x00 \<in> set [CHR ''a'', CHR 0x00]"
    by simp
  have f: "filter (\<lambda>r. sublist (ascii_lower ''' OR '1'='1'') (ascii_lower (col_review r)))
      (reviews quoted_db) =
     [\<lparr>col_id = 2, col_external_id = Some 2, col_review = ''he typed x' or '1'='1 again'',
       col_sentiment = 1\<rparr>]"
    by code_simp
  have c1: "pg_lower cafe_db (''%'' @ ?cafe @ ''%'') = ''%'' @ pg_lower cafe_db ?cafe @ ''%''"
    by code_simp
  have c2: "pg_lower cafe_db ?cafe = ''caf'' @ [CHR 0xC3, CHR 0xA9]"
    by code_simp
  have c3: "like_plain (pg_lower cafe_db ?cafe)"
    by code_simp
  have c4: "starts_character (pg_lower cafe_db ?cafe)"
    by code_simp
  have c5: "filter (\<lambda>r. sublist (pg_lower cafe_db ?cafe) (pg_lower cafe_db (col_review r)))
      (reviews cafe_db) =
     [\<lparr>col_id = 1, col_external_id = Some 1,
       col_review = ''un caf'' @ [CHR 0xC3, CHR 0xA9] @ '' noir'', col_sentiment = 1\<rparr>]"
    by code_simp
  note r = bound_parameter_literal_match [of "''' OR '1'='1''" ascii_lower quoted_db]
  note r' = bound_parameter_literal_match [of "[CHR ''a'', CHR 0x00]" ascii_lower quoted_db]
  note r'' = bound_parameter_literal_match [of ?cafe ascii_lower cafe_db]
  from r l p s
  have m: "matching_rows quoted_db (''%'' @ ''' OR '1'='1'' @ ''%'') =
      filter (\<lambda>r. sublist (ascii_lower ''' OR '1'='1'') (ascii_lower (col_review r)))
        (reviews quoted_db)"
    by blast
  from r z
  have e: "pg_execute quoted_db select_sql [Pg_text (''%'' @ ''' OR '1'='1'' @ ''%'')] =
      (Inr (select_reviews quoted_db (''%'' @ ''' OR '1'='1'' @ ''%'')), quoted_db)"
    by blast
  from r' n
  have e': "pg_execute quoted_db select_sql [Pg_text (''%'' @ [CHR ''a'', CHR 0x00] @ ''%'')] =
      (Inl (Rejected ''invalid byte sequence for encoding UTF8: 0x00''), quoted_db)"
    by blast
  from r'' c1 c3 c4
  have m': "matching_rows cafe_db (''%'' @ ?cafe @ ''%'') =
      filter (\<lambda>r. sublist (pg_lower cafe_db ?cafe) (pg_lower cafe_db (col_review r)))
        (reviews cafe_db)"
    by blast
  from l p s z n e e' m [unfolded f] c1 c2 c3 c4 m' [unfolded c5] show ?thesis
    by blast
qed

text \<open>
  C5 as stated fails for a query with a pattern character: the query \<^verbatim>\<open>%\<close> matches
  all twelve rows of a store in which no review contains a percent sign.
\<close>

theorem percent_matches_every_row:
  "matching_rows many_db (''%'' @ ''%'' @ ''%'') = reviews many_db \<and>
   length (reviews many_db) = 12 \<and>
   CHR ''%'' \<notin> set (concat (map col_review (reviews many_db)))"
  by code_simp

section \<open>The serialised payload is one line\<close>

lemma hex_char_not_newline: "d < 16 \<Longrightarrow> hex_char d \<noteq> CHR 0x0A"
proof -
  assume d: "d < 16"
  then have "(of_char (hex_char d) :: nat) \<noteq> 10"
    by (simp add: hex_char_def)
  then show ?thesis
    by auto
qed

lemma escape_char_no_newline: "CHR 0x0A \<notin> set (escape_char c)"
proof -
  have c: "(of_char c :: nat) \<noteq> 10 \<Longrightarrow> c \<noteq> CHR 0x0A"
    by auto
  have h: "hex_char (of_char c div 16) \<noteq> CHR 0x0A" "hex_char (of_char c mod 16) \<noteq> CHR 0x0A"
    if "(of_char c :: nat) < 32"
    using that by (simp_all add: hex_char_not_newline)
  show ?thesis
    unfolding escape_char_def Let_def
    using c h by (auto simp del: of_char_eq_iff)
qed

lemma QuoteJSONString_no_newline: "CHR 0x0A \<notin> set (QuoteJSONString s)"
  by (simp add: QuoteJSONString_def escape_char_no_newline)

lemma show_nat_no_newline: "CHR 0x0A \<notin> set (show_nat n)"
proof
  assume "CHR 0x0A \<in> set (show_nat n)"
  then have "is_digit (CHR 0x0A)"
    by (rule show_nat_digits)
  then show False
    by (simp add: is_digit_def)
qed

lemma show_int_no_newline: "CHR 0x0A \<notin> set (show_int i)"
  by (simp add: show_int_def show_nat_no_newline)

lemma join_no_newline:
  "CHR 0x0A \<notin> set sep \<Longrightarrow> \<forall>x \<in> set xs. CHR 0x0A \<notin> set x \<Longrightarrow> CHR 0x0A \<notin> set (join sep xs)"
  by (induction sep xs rule: join.induct) simp_all

lemma stringify_no_newline: "CHR 0x0A \<notin> set (stringify v)"
proof (induction v)
  case JNull
  show ?case by simp
next
  case (JNum n)
  show ?case by (simp add: show_int_no_newline)
next
  case (JStr s)
  show ?case by (simp add: QuoteJSONString_no_newline)
next
  case (JArr xs)
  then have "\<forall>x \<in> set (map stringify xs). CHR 0x0A \<notin> set x"
    by simp
  then have "CHR 0x0A \<notin> set (join '','' (map stringify xs))"
    by (intro join_no_newline) simp_all
  then show ?case
    by simp
next
  case (JObj kvs)
  have "\<forall>x \<in> set (map member_text (map (map_prod id stringify) kvs)). CHR 0x0A \<notin> set x"
  proof
    fix x
    assume "x \<in> set (map member_text (map (map_prod id stringify) kvs))"
    then obtain k v where kv: "(k, v) \<in> set kvs" and x: "x = QuoteJSONString k @ '':'' @ stringify v"
      by (auto simp: member_text_def)
    from kv have "CHR 0x0A \<notin> set (stringify v)"
      by (intro JObj.IH [of "(k, v)" v]) simp_all
    with x show "CHR 0x0A \<notin> set x"
      by (simp add: QuoteJSONString_no_newline)
  qed
  then have "CHR 0x0A \<notin> set (join '','' (map member_text (map (map_prod id stringify) kvs)))"
    by (intro join_no_newline) simp_all
  then show ?case
    by simp
qed

lemma payload_shape:
  "payload source data time =
     ''{'' @ QuoteJSONString ''source'' @ '':'' @ QuoteJSONString source @ '','' @
     QuoteJSONString ''data'' @ '':'' @ stringify data @ '','' @
     QuoteJSONString ''time'' @ '':'' @ show_int time @ ''}''"
  by (simp add: payload_def member_text_def)

section \<open>Framing of an event\<close>

text \<open>
  C6 (as amended). A chunk is the text \<^verbatim>\<open>data: \<close>, the payload, and two line feeds; the
  payload has no line feed of its own, so the two that end the chunk delimit it. The
  payload is the object with the properties \<^verbatim>\<open>source\<close>, \<^verbatim>\<open>data\<close> and \<^verbatim>\<open>time\<close>
  in this order, \<^verbatim>\<open>data\<close> being the object of the records and the total and
  \<^verbatim>\<open>time\<close> an integer. The relational lookup writes the source \<^verbatim>\<open>postgres\<close> and
  the search-engine lookup the source \<^verbatim>\<open>elastic\<close>. A relational record has the
  properties \<^verbatim>\<open>id\<close>, \<^verbatim>\<open>external_id\<close>, \<^verbatim>\<open>review\<close> and \<^verbatim>\<open>sentiment\<close>; a
  record of the search engine is the stored source of the hit.
\<close>

theorem event_framing:
  "event_chunk source data time = ''data: '' @ payload source data time @ ''\<newline>\<newline>'' \<and>
   CHR 0x0A \<notin> set (payload source data time) \<and>
   payload source data time =
     ''{'' @ QuoteJSONString ''source'' @ '':'' @ QuoteJSONString source @ '','' @
     QuoteJSONString ''data'' @ '':'' @ stringify data @ '','' @
     QuoteJSONString ''time'' @ '':'' @ show_int time @ ''}'' \<and>
   enqueued (ctrl (step (Pg_settled (Inr rows) t1) (start unicode_lower query))) =
     [event_chunk ''postgres''
        (JObj [(''data'', JArr (map row_json (postgres_data rows))),
               (''total'', number_json (postgres_total rows))])
        t1] \<and>
   enqueued (ctrl (step (Es_settled (Inr result) t1) (start unicode_lower query))) =
     [event_chunk ''elastic''
        (JObj [(''data'', JArr (map hit_source (hits_hits result))),
               (''total'', JNum (elastic_total result))])
        t1] \<and>
   map row_json (postgres_data (select_reviews db pattern)) =
     map (\<lambda>r. JObj [(''id'', JNum (col_id r)),
                     (''external_id'', (case col_external_id r of None \<Rightarrow> JNull | Some e \<Rightarrow> JNum e)),
                     (''review'', JStr (col_review r)),
                     (''sentiment'', JNum (col_sentiment r))])
       (take 10 (matching_rows db pattern))"
proof -
  have 1: "event_chunk source data time = ''data: '' @ payload source data time @ ''\<newline>\<newline>''"
    by (simp add: event_chunk_def encode_def)
  have 2: "CHR 0x0A \<notin> set (payload source data time)"
    unfolding payload_def by (rule stringify_no_newline)
  have 4: "enqueued (ctrl (step (Pg_settled (Inr rows) t1) (start unicode_lower query))) =
     [event_chunk ''postgres''
        (JObj [(''data'', JArr (map row_json (postgres_data rows))),
               (''total'', number_json (postgres_total rows))])
        t1]"
    by (simp add: pg_first postgres_payload_def)
  have 5: "enqueued (ctrl (step (Es_settled (Inr result) t1) (start unicode_lower query))) =
     [event_chunk ''elastic''
        (JObj [(''data'', JArr (map hit_source (hits_hits result))),
               (''total'', JNum (elastic_total result))])
        t1]"
    by (simp add: es_first elastic_payload_def elastic_data_def)
  have 6: "map row_json (postgres_data (select_reviews db pattern)) =
     map (\<lambda>r. JObj [(''id'', JNum (col_id r)),
                     (''external_id'', (case col_external_id r of None \<Rightarrow> JNull | Some e \<Rightarrow> JNum e)),
                     (''review'', JStr (col_review r)),
                     (''sentiment'', JNum (col_sentiment r))])
       (take 10 (matching_rows db pattern))"
    by (simp add: postgres_data_def select_reviews_def Let_def rest_of_result_row comp_def
        row_json_def value_json_def split: option.splits)
  from 1 2 payload_shape [of source data time] 4 5 6 show ?thesis
    by blast
qed

text \<open>
  C6 as stated fails on the reference scenario: the event of the relational lookup names
  its source \<^verbatim>\<open>postgres\<close>, not \<^verbatim>\<open>relational\<close>, and its record has the property
  \<^verbatim>\<open>id\<close> as well; the event of the search engine names its source \<^verbatim>\<open>elastic\<close>.
\<close>

theorem relational_event_as_written:
  \<open>enqueued (ctrl (step (Pg_settled wombat_rows 4) (start ascii_lower ''wombat''))) =
     [''data: {"source":"postgres","data":{"data":[{"id":1,"external_id":1,"review":"a rare wombat sighting","sentiment":0}],"total":1},"time":4}\<newline>\<newline>''] \<and>
   enqueued (ctrl (step (Pg_settled wombat_rows 4) (start ascii_lower ''wombat''))) \<noteq>
     [''data: {"source":"relational","data":{"data":[{"external_id":1,"review":"a rare wombat sighting","sentiment":0}],"total":1},"time":4}\<newline>\<newline>''] \<and>
   enqueued (ctrl (step (Es_settled wombat_hits 8) (start ascii_lower ''wombat''))) =
     [''data: {"source":"elastic","data":{"data":[{"external_id":1,"review":"a rare wombat sighting","sentiment":0}],"total":1},"time":8}\<newline>\<newline>'']\<close>
  by code_simp

end
